theory Spec2Isabelle
  imports Complex_Main
begin

section \<open>JavaScript strings\<close>

text \<open>
  The extractor of \<^verbatim>\<open>src/readable.ts\<close> works on JavaScript strings. A JavaScript
  string is a sequence of UTF-16 code units and \<^verbatim>\<open>.length\<close> counts code units, so a
  string is modelled as the list of its code units, each kept as its number (an integer).
  \<open>js\<close> turns an ASCII literal into such a list.
\<close>

type_synonym jstring = "int list"

definition js :: "string \<Rightarrow> jstring" where
  "js s = map of_char s"

abbreviation space :: int where "space \<equiv> 32"
abbreviation newline :: int where "newline \<equiv> 10"
abbreviation nbsp :: int where "nbsp \<equiv> 160"
abbreviation middot :: int where "middot \<equiv> 183"
abbreviation bullet :: int where "bullet \<equiv> 8226"
abbreviation ellipsis :: int where "ellipsis \<equiv> 8230"
abbreviation hash :: int where "hash \<equiv> 35"

text \<open>
  The class \<^verbatim>\<open>\s\<close> of a JavaScript regular expression, which is also the set of code
  units that \<^verbatim>\<open>trim\<close>, \<^verbatim>\<open>trimEnd\<close> strip: tab, LF, VT, FF, CR, space, U+00A0, U+1680,
  U+2000..U+200A, U+2028, U+2029, U+202F, U+205F, U+3000, U+FEFF.
\<close>

definition isSpace :: "int \<Rightarrow> bool" where
  "isSpace c = (c = 9 \<or> c = 10 \<or> c = 11 \<or> c = 12 \<or> c = 13 \<or> c = 32 \<or> c = 160 \<or>
     c = 5760 \<or> (8192 \<le> c \<and> c \<le> 8202) \<or> c = 8232 \<or> c = 8233 \<or> c = 8239 \<or>
     c = 8287 \<or> c = 12288 \<or> c = 65279)"

definition isDigit :: "int \<Rightarrow> bool" where
  "isDigit c = (48 \<le> c \<and> c \<le> 57)"

definition isAlpha :: "int \<Rightarrow> bool" where
  "isAlpha c = ((65 \<le> c \<and> c \<le> 90) \<or> (97 \<le> c \<and> c \<le> 122))"

text \<open>The class \<^verbatim>\<open>\w\<close>: ASCII letters, digits and the underscore.\<close>

definition isWordChar :: "int \<Rightarrow> bool" where
  "isWordChar c = (isAlpha c \<or> isDigit c \<or> c = 95)"

text \<open>
  The ASCII capitals in small letters, every other code unit as it is. This is how a
  regular expression with the flag \<^verbatim>\<open>i\<close> (and without the flag \<^verbatim>\<open>u\<close>) compares the ASCII
  letters of its pattern, and how the selector engine compares tag names in an HTML
  document. It is not \<^verbatim>\<open>String.prototype.toLowerCase\<close>, which follows the Unicode tables of
  the engine and is a parameter of the model (see the configuration).
\<close>

definition lowerUnit :: "int \<Rightarrow> int" where
  "lowerUnit c = (if 65 \<le> c \<and> c \<le> 90 then c + 32 else c)"

definition lowerAscii :: "jstring \<Rightarrow> jstring" where
  "lowerAscii s = map lowerUnit s"

definition trimStart :: "jstring \<Rightarrow> jstring" where
  "trimStart s = dropWhile isSpace s"

definition trimEnd :: "jstring \<Rightarrow> jstring" where
  "trimEnd s = rev (dropWhile isSpace (rev s))"

definition trim :: "jstring \<Rightarrow> jstring" where
  "trim s = trimEnd (trimStart s)"

definition startsWith :: "jstring \<Rightarrow> jstring \<Rightarrow> bool" where
  "startsWith s p = (take (length p) s = p)"

text \<open>A match of an ASCII word at the head of a string, under the flag \<^verbatim>\<open>i\<close>.\<close>

definition startsWithCI :: "jstring \<Rightarrow> jstring \<Rightarrow> bool" where
  "startsWithCI s p = (lowerAscii (take (length p) s) = lowerAscii p)"

fun jsIncludes :: "jstring \<Rightarrow> jstring \<Rightarrow> bool" where
  "jsIncludes [] p = (p = [])"
| "jsIncludes (c # cs) p = (startsWith (c # cs) p \<or> jsIncludes cs p)"

text \<open>
  \<^verbatim>\<open>regex.test(text)\<close> looks for a match at every position. \<open>anyPos P None text\<close> tries
  \<open>P\<close> at every position of \<open>text\<close>, the end included, giving it the code unit before the
  position (for \<^verbatim>\<open>\b\<close>) and the rest of the text from the position on.
\<close>

fun anyPos :: "(int option \<Rightarrow> jstring \<Rightarrow> bool) \<Rightarrow> int option \<Rightarrow> jstring \<Rightarrow> bool" where
  "anyPos P prev [] = P prev []"
| "anyPos P prev (c # cs) = (P prev (c # cs) \<or> anyPos P (Some c) cs)"

text \<open>
  \<^verbatim>\<open>text.replace(regex, rep)\<close> with the flag \<^verbatim>\<open>g\<close>, for a regex that matches no empty
  string: \<open>m rest\<close> is the length of the match that starts at the head of \<open>rest\<close>, or 0
  when there is none there. The scan goes from left to right, and after a match it goes
  on behind the match. The third argument counts the code units of a match still to skip.
\<close>

fun replaceAll :: "(jstring \<Rightarrow> nat) \<Rightarrow> jstring \<Rightarrow> nat \<Rightarrow> jstring \<Rightarrow> jstring" where
  "replaceAll m rep k [] = []"
| "replaceAll m rep (Suc k) (c # cs) = replaceAll m rep k cs"
| "replaceAll m rep 0 (c # cs) =
     (case m (c # cs) of
        0 \<Rightarrow> c # replaceAll m rep 0 cs
      | Suc n \<Rightarrow> rep @ replaceAll m rep n cs)"

text \<open>\<^verbatim>\<open>text.replace(/\s+/g, ' ')\<close>: every maximal run of white space becomes one space.\<close>

fun collapseSpaces :: "bool \<Rightarrow> jstring \<Rightarrow> jstring" where
  "collapseSpaces inRun [] = []"
| "collapseSpaces inRun (c # cs) =
     (if isSpace c then (if inRun then collapseSpaces True cs else space # collapseSpaces True cs)
      else c # collapseSpaces False cs)"

text \<open>
  \<^verbatim>\<open>text.split(regex)\<close> for a regex \<^verbatim>\<open>[class]+\<close>: the pieces between the maximal runs of
  the class \<open>P\<close> (an empty piece before a leading run and after a trailing one).
\<close>

fun splitRuns :: "(int \<Rightarrow> bool) \<Rightarrow> bool \<Rightarrow> jstring \<Rightarrow> jstring \<Rightarrow> jstring list" where
  "splitRuns P inRun cur [] = [cur]"
| "splitRuns P inRun cur (c # cs) =
     (if P c then (if inRun then splitRuns P True cur cs else cur # splitRuns P True [] cs)
      else splitRuns P False (cur @ [c]) cs)"

definition splitNewlines :: "jstring \<Rightarrow> jstring list" where
  "splitNewlines s = splitRuns (\<lambda>c. c = newline) False [] s"

definition splitSpaces :: "jstring \<Rightarrow> jstring list" where
  "splitSpaces s = splitRuns isSpace False [] s"

text \<open>\<^verbatim>\<open>parts.join(sep)\<close>.\<close>

fun joinWith :: "jstring \<Rightarrow> jstring list \<Rightarrow> jstring" where
  "joinWith sep [] = []"
| "joinWith sep [x] = x"
| "joinWith sep (x # y # ys) = x @ sep @ joinWith sep (y # ys)"

text \<open>
  \<^verbatim>\<open>(text.match(/\d+/g) || []).length\<close>: the number of maximal runs of digits.
\<close>

fun countDigitRuns :: "bool \<Rightarrow> jstring \<Rightarrow> nat" where
  "countDigitRuns inRun [] = 0"
| "countDigitRuns inRun (c # cs) =
     (if isDigit c then (if inRun then countDigitRuns True cs else Suc (countDigitRuns True cs))
      else countDigitRuns False cs)"

text \<open>
  The decimal digits of a natural number: a counter in a template string (the link
  counter of \<^verbatim>\<open>registerLink\<close>).
\<close>

function numToString :: "nat \<Rightarrow> jstring" where
  "numToString n = (if n < 10 then [48 + int n] else numToString (n div 10) @ [48 + int (n mod 10)])"
  by pat_completeness auto
termination
  by (relation "measure (\<lambda>n. n)") auto

declare numToString.simps [simp del]

text \<open>The natural number that a string of decimal digits writes.\<close>

definition digitsToNumber :: "jstring \<Rightarrow> nat" where
  "digitsToNumber ds = foldl (\<lambda>acc c. acc * 10 + nat (c - 48)) 0 ds"

section \<open>JavaScript numbers\<close>

text \<open>
  A JavaScript number is an IEEE 754 double. A finite one is kept as the rational number
  it stands for (the two zeros are one: the extractor compares, adds and prints its
  numbers, which does not tell them apart); the others are the two infinities and
  \<^verbatim>\<open>NaN\<close>. The counters of the extractor (\<^verbatim>\<open>itemCount\<close>, lengths, depths) are whole numbers far
  below \<open>2 ^ 53\<close>, where doubles are exact, and stay natural numbers in the model.
\<close>

datatype number = Num rat | PosInfinity | NegInfinity | NaN

definition ofNat :: "nat \<Rightarrow> number" where
  "ofNat n = Num (of_nat n)"

definition numIsFinite :: "number \<Rightarrow> bool" where
  "numIsFinite x = (case x of Num _ \<Rightarrow> True | _ \<Rightarrow> False)"

text \<open>
  The comparisons \<^verbatim>\<open>a < b\<close>, \<^verbatim>\<open>a <= b\<close>, \<^verbatim>\<open>a > b\<close>, \<^verbatim>\<open>a >= b\<close>: each is false when an operand is
  \<^verbatim>\<open>NaN\<close>.
\<close>

fun lessNum :: "number \<Rightarrow> number \<Rightarrow> bool" where
  "lessNum NaN b = False"
| "lessNum a NaN = False"
| "lessNum (Num a) (Num b) = (a < b)"
| "lessNum (Num a) PosInfinity = True"
| "lessNum (Num a) NegInfinity = False"
| "lessNum PosInfinity b = False"
| "lessNum NegInfinity (Num b) = True"
| "lessNum NegInfinity PosInfinity = True"
| "lessNum NegInfinity NegInfinity = False"

definition leqNum :: "number \<Rightarrow> number \<Rightarrow> bool" where
  "leqNum a b = (a \<noteq> NaN \<and> b \<noteq> NaN \<and> \<not> lessNum b a)"

definition greaterNum :: "number \<Rightarrow> number \<Rightarrow> bool" where
  "greaterNum a b = lessNum b a"

definition geqNum :: "number \<Rightarrow> number \<Rightarrow> bool" where
  "geqNum a b = leqNum b a"

text \<open>\<^verbatim>\<open>Math.max(a, b)\<close> and \<^verbatim>\<open>Math.min(a, b)\<close>: \<^verbatim>\<open>NaN\<close> when an argument is \<^verbatim>\<open>NaN\<close>.\<close>

definition mathMax :: "number \<Rightarrow> number \<Rightarrow> number" where
  "mathMax a b = (if a = NaN \<or> b = NaN then NaN else if lessNum a b then b else a)"

definition mathMin :: "number \<Rightarrow> number \<Rightarrow> number" where
  "mathMin a b = (if a = NaN \<or> b = NaN then NaN else if lessNum b a then b else a)"

text \<open>
  Rounding a rational to the nearest double, ties to the even mantissa. \<open>bitLength n\<close> is
  the number of binary digits of \<open>n\<close>, \<open>pow2 e\<close> is \<open>2\<close> to the power \<open>e\<close>, \<open>binaryExponent q\<close> is
  the \<open>e\<close> with \<open>2 ^ e \<le> q < 2 ^ (e + 1)\<close> for a positive \<open>q\<close>. A double has a mantissa of 53
  binary digits and an exponent of at least \<open>-1022\<close> (below it the doubles are the
  multiples of \<open>2 ^ -1074\<close>); a result of \<open>2 ^ 1024\<close> or more is \<^verbatim>\<open>Infinity\<close>.
\<close>

function bitLength :: "int \<Rightarrow> int" where
  "bitLength n = (if n \<le> 0 then 0 else 1 + bitLength (n div 2))"
  by pat_completeness auto
termination
  by (relation "measure nat") auto

declare bitLength.simps [simp del]

function powInt :: "rat \<Rightarrow> int \<Rightarrow> rat" where
  "powInt b e = (if e \<le> 0 then 1 else b * powInt b (e - 1))"
  by pat_completeness auto
termination
  by (relation "measure (\<lambda>(b, e). nat e)") auto

declare powInt.simps [simp del]

definition pow2 :: "int \<Rightarrow> rat" where
  "pow2 e = (if 0 \<le> e then powInt 2 e else 1 / powInt 2 (- e))"

definition pow10 :: "int \<Rightarrow> rat" where
  "pow10 e = (if 0 \<le> e then powInt 10 e else 1 / powInt 10 (- e))"

definition binaryExponent :: "rat \<Rightarrow> int" where
  "binaryExponent q =
     (if 1 \<le> q then bitLength \<lfloor>q\<rfloor> - 1 else - bitLength (\<lceil>1 / q\<rceil> - 1))"

definition roundHalfEven :: "rat \<Rightarrow> int" where
  "roundHalfEven x =
     (let f = \<lfloor>x\<rfloor>; d = x - of_int f
      in if d < 1 / 2 then f else if 1 / 2 < d then f + 1 else if even f then f else f + 1)"

definition roundPositive :: "rat \<Rightarrow> number" where
  "roundPositive q =
     (let e = binaryExponent q in
      if 1024 \<le> e then PosInfinity
      else
        (let u = pow2 (max e (- 1022) - 52);
             m = roundHalfEven (q / u)
         in if e = 1023 \<and> m = 9007199254740992 then PosInfinity else Num (of_int m * u)))"

definition negateNum :: "number \<Rightarrow> number" where
  "negateNum x =
     (case x of Num q \<Rightarrow> Num (- q) | PosInfinity \<Rightarrow> NegInfinity | NegInfinity \<Rightarrow> PosInfinity
      | NaN \<Rightarrow> NaN)"

definition roundDouble :: "rat \<Rightarrow> number" where
  "roundDouble q =
     (if q = 0 then Num 0 else if q < 0 then negateNum (roundPositive (- q)) else roundPositive q)"

text \<open>\<^verbatim>\<open>a + b\<close>, \<^verbatim>\<open>a - b\<close> and \<^verbatim>\<open>a * b\<close>: the exact result, rounded.\<close>

fun numAdd :: "number \<Rightarrow> number \<Rightarrow> number" where
  "numAdd NaN b = NaN"
| "numAdd a NaN = NaN"
| "numAdd (Num a) (Num b) = roundDouble (a + b)"
| "numAdd (Num a) b = b"
| "numAdd a (Num b) = a"
| "numAdd PosInfinity PosInfinity = PosInfinity"
| "numAdd NegInfinity NegInfinity = NegInfinity"
| "numAdd PosInfinity NegInfinity = NaN"
| "numAdd NegInfinity PosInfinity = NaN"

definition numSub :: "number \<Rightarrow> number \<Rightarrow> number" where
  "numSub a b = numAdd a (negateNum b)"

definition signOf :: "number \<Rightarrow> int" where
  "signOf x =
     (case x of Num q \<Rightarrow> (if q < 0 then - 1 else if q = 0 then 0 else 1)
      | PosInfinity \<Rightarrow> 1 | NegInfinity \<Rightarrow> - 1 | NaN \<Rightarrow> 0)"

definition numMul :: "number \<Rightarrow> number \<Rightarrow> number" where
  "numMul a b =
     (case (a, b) of
        (Num x, Num y) \<Rightarrow> roundDouble (x * y)
      | _ \<Rightarrow>
          if a = NaN \<or> b = NaN \<or> signOf a * signOf b = 0 then NaN
          else if 0 < signOf a * signOf b then PosInfinity else NegInfinity)"

text \<open>
  \<^verbatim>\<open>xs.slice(0, end)\<close> of an array or a string: \<^verbatim>\<open>end\<close> is cut to a whole number towards
  zero (\<^verbatim>\<open>NaN\<close> counts as 0), and a negative one counts from the end.
\<close>

definition truncToInt :: "rat \<Rightarrow> int" where
  "truncToInt q = (if 0 \<le> q then \<lfloor>q\<rfloor> else \<lceil>q\<rceil>)"

definition sliceTo :: "number \<Rightarrow> 'a list \<Rightarrow> 'a list" where
  "sliceTo end xs =
     (case end of
        NaN \<Rightarrow> []
      | NegInfinity \<Rightarrow> []
      | PosInfinity \<Rightarrow> xs
      | Num q \<Rightarrow>
          if truncToInt q < 0 then take (nat (int (length xs) + truncToInt q)) xs
          else take (nat (truncToInt q)) xs)"

text \<open>
  \<^verbatim>\<open>s.repeat(count)\<close> for a count that is at least 0 and finite (the extractor calls it
  with a count between 1 and 6, or with a natural number).
\<close>

definition repeatString :: "jstring \<Rightarrow> number \<Rightarrow> jstring" where
  "repeatString s count =
     (case count of Num q \<Rightarrow> concat (replicate (nat (truncToInt q)) s) | _ \<Rightarrow> [])"

text \<open>
  A number in a template string (\<^verbatim>\<open>Number::toString\<close>). For a positive double \<open>q\<close>,
  \<open>decimalExponent q\<close> is the \<open>n\<close> with \<open>10 ^ (n - 1) \<le> q < 10 ^ n\<close>. The digits are those of the
  whole number \<open>s\<close> with the fewest digits \<open>k\<close> for which \<open>s * 10 ^ (n - k)\<close> rounds to \<open>q\<close>; among
  several the one nearest to \<open>q\<close>, and the even one of two equally near. 17 digits are
  always enough. With \<open>k\<close> digits only the two multiples of \<open>10 ^ (n - k)\<close> around \<open>q\<close> can round
  to \<open>q\<close>; when the upper one is \<open>10 ^ n\<close> itself its digits are those of 1 and the exponent is
  one more.
\<close>

function digitCount :: "int \<Rightarrow> int" where
  "digitCount n = (if n < 10 then 1 else 1 + digitCount (n div 10))"
  by pat_completeness auto
termination
  by (relation "measure nat") auto

declare digitCount.simps [simp del]

function leadingZeros :: "rat \<Rightarrow> int" where
  "leadingZeros q = (if q \<le> 0 \<or> 1 / 10 \<le> q then 0 else 1 + leadingZeros (q * 10))"
  by pat_completeness auto
termination
proof (relation "measure (\<lambda>q. nat \<lceil>1 / q\<rceil>)")
  show "wf (measure (\<lambda>q. nat \<lceil>1 / q\<rceil>))" by simp
next
  fix q :: rat
  assume a: "\<not> (q \<le> 0 \<or> 1 / 10 \<le> q)"
  then have q: "0 < q" "q < 1 / 10" by auto
  have big: "10 < 1 / q" using q by (simp add: field_simps)
  have "1 / (q * 10) = (1 / q) / 10" by simp
  also have "\<dots> \<le> 1 / q - 9" using big by simp
  finally have "\<lceil>1 / (q * 10)\<rceil> \<le> \<lceil>1 / q - 9\<rceil>" by (rule ceiling_mono)
  also have "\<dots> = \<lceil>1 / q\<rceil> - 9" by simp
  finally have "\<lceil>1 / (q * 10)\<rceil> < \<lceil>1 / q\<rceil>" by simp
  moreover have "0 < \<lceil>1 / q\<rceil>" using q by simp
  ultimately show "(q * 10, q) \<in> measure (\<lambda>q. nat \<lceil>1 / q\<rceil>)" by simp
qed

declare leadingZeros.simps [simp del]

definition decimalExponent :: "rat \<Rightarrow> int" where
  "decimalExponent q = (if 1 \<le> q then digitCount \<lfloor>q\<rfloor> else - leadingZeros q)"

function intDigits :: "int \<Rightarrow> jstring" where
  "intDigits n = (if n < 10 then [48 + n] else intDigits (n div 10) @ [48 + n mod 10])"
  by pat_completeness auto
termination
  by (relation "measure nat") auto

declare intDigits.simps [simp del]

definition roundsTo :: "rat \<Rightarrow> rat \<Rightarrow> bool" where
  "roundsTo x q = (0 < x \<and> roundDouble x = Num q)"

definition digitsWith :: "rat \<Rightarrow> int \<Rightarrow> int \<Rightarrow> (int \<times> int) option" where
  "digitsWith q n k =
     (let scale = pow10 (n - k);
          lower = \<lfloor>q / scale\<rfloor>;
          upper = lower + 1;
          okLower = roundsTo (of_int lower * scale) q;
          okUpper = roundsTo (of_int upper * scale) q;
          dLower = q - of_int lower * scale;
          dUpper = of_int upper * scale - q;
          s = (if okLower \<and> okUpper then
                 (if dLower < dUpper then lower else if dUpper < dLower then upper
                  else if even lower then lower else upper)
               else if okLower then lower else upper)
      in if \<not> okLower \<and> \<not> okUpper then None
         else if s = \<lfloor>pow10 k\<rfloor> then Some (\<lfloor>pow10 (k - 1)\<rfloor>, n + 1)
         else Some (s, n))"

fun shortestDigits :: "rat \<Rightarrow> int \<Rightarrow> int list \<Rightarrow> int \<times> int" where
  "shortestDigits q n [] = (\<lfloor>q / pow10 (n - 17)\<rfloor>, n)"
| "shortestDigits q n (k # ks) =
     (case digitsWith q n k of Some found \<Rightarrow> found | None \<Rightarrow> shortestDigits q n ks)"

definition zeros :: "int \<Rightarrow> jstring" where
  "zeros n = replicate (nat n) 48"

definition positiveToString :: "rat \<Rightarrow> jstring" where
  "positiveToString q =
     (case shortestDigits q (decimalExponent q) [1, 2, 3, 4, 5, 6, 7, 8, 9, 10, 11, 12, 13, 14, 15, 16, 17] of
        (s, n) \<Rightarrow>
          (let ds = intDigits s; k = int (length ds) in
           if k \<le> n \<and> n \<le> 21 then ds @ zeros (n - k)
           else if 0 < n \<and> n \<le> 21 then take (nat n) ds @ [46] @ drop (nat n) ds
           else if - 6 < n \<and> n \<le> 0 then [48, 46] @ zeros (- n) @ ds
           else
             (if k = 1 then ds else take 1 ds @ [46] @ drop 1 ds) @ [101] @
             (if n - 1 < 0 then [45] else [43]) @ intDigits (abs (n - 1))))"

definition numberToString :: "number \<Rightarrow> jstring" where
  "numberToString x =
     (case x of
        NaN \<Rightarrow> js ''NaN''
      | PosInfinity \<Rightarrow> js ''Infinity''
      | NegInfinity \<Rightarrow> js ''-Infinity''
      | Num q \<Rightarrow>
          if q = 0 then js ''0''
          else if q < 0 then [45] @ positiveToString (- q)
          else positiveToString q)"

text \<open>
  \<^verbatim>\<open>Number(text)\<close> for a string: white space around the literal is dropped; the empty
  string is 0; a literal is a decimal one with an optional sign (digits with an optional
  fraction and an optional exponent, or \<^verbatim>\<open>Infinity\<close>), or a hexadecimal, octal or binary
  whole number without a sign; every other string is \<^verbatim>\<open>NaN\<close>. The value is rounded to a
  double. \<open>digitsValue base ds\<close> is the whole number that the digits write in the base.
\<close>

definition digitValue :: "int \<Rightarrow> int" where
  "digitValue c =
     (if 48 \<le> c \<and> c \<le> 57 then c - 48
      else if 97 \<le> c \<and> c \<le> 122 then c - 87
      else if 65 \<le> c \<and> c \<le> 90 then c - 55
      else 99)"

definition isDigitOf :: "int \<Rightarrow> int \<Rightarrow> bool" where
  "isDigitOf base c = (digitValue c < base)"

definition digitsValue :: "int \<Rightarrow> jstring \<Rightarrow> int" where
  "digitsValue base ds = foldl (\<lambda>acc c. acc * base + digitValue c) 0 ds"

definition parseExponent :: "jstring \<Rightarrow> int option" where
  "parseExponent t =
     (case t of
        [] \<Rightarrow> Some 0
      | c # r \<Rightarrow>
          if c = 101 \<or> c = 69 then
            (let negative = startsWith r (js ''-'');
                 ds = (if negative \<or> startsWith r (js ''+'') then drop 1 r else r)
             in if ds \<noteq> [] \<and> list_all isDigit ds then
                  Some ((if negative then - 1 else 1) * digitsValue 10 ds)
                else None)
          else None)"

definition parseDecimal :: "jstring \<Rightarrow> number" where
  "parseDecimal t =
     (if t = js ''Infinity'' then PosInfinity
      else
        (let whole = takeWhile isDigit t;
             r1 = dropWhile isDigit t;
             hasPoint = startsWith r1 (js ''.'');
             fraction = (if hasPoint then takeWhile isDigit (drop 1 r1) else []);
             r2 = (if hasPoint then dropWhile isDigit (drop 1 r1) else r1)
         in if whole = [] \<and> fraction = [] then NaN
            else
              (case parseExponent r2 of
                 None \<Rightarrow> NaN
               | Some e \<Rightarrow>
                   roundDouble
                     (of_int (digitsValue 10 (whole @ fraction)) * pow10 (e - int (length fraction))))))"

definition parsePrefixed :: "jstring \<Rightarrow> number option" where
  "parsePrefixed t =
     (let base = (if startsWith t (js ''0x'') \<or> startsWith t (js ''0X'') then 16
                  else if startsWith t (js ''0o'') \<or> startsWith t (js ''0O'') then 8
                  else if startsWith t (js ''0b'') \<or> startsWith t (js ''0B'') then 2
                  else 0);
          ds = drop 2 t
      in if base = 0 then None
         else if ds \<noteq> [] \<and> list_all (isDigitOf base) ds then
           Some (roundDouble (of_int (digitsValue base ds)))
         else Some NaN)"

definition stringToNumber :: "jstring \<Rightarrow> number" where
  "stringToNumber text =
     (let t = trim text in
      if t = [] then Num 0
      else
        (case parsePrefixed t of
           Some x \<Rightarrow> x
         | None \<Rightarrow>
             if startsWith t (js ''-'') then negateNum (parseDecimal (drop 1 t))
             else if startsWith t (js ''+'') then parseDecimal (drop 1 t)
             else parseDecimal t))"

section \<open>Cleaner and normaliser\<close>

text \<open>
  \<^verbatim>\<open>normalize\<close> (lines 166-170): U+00A0 becomes a space, runs of white space become one
  space, the ends are trimmed.
\<close>

definition normalize_js :: "jstring \<Rightarrow> jstring" where
  "normalize_js text =
     trim (collapseSpaces False (map (\<lambda>c. if c = nbsp then space else c) text))"

text \<open>
  \<^verbatim>\<open>looksLikeCss\<close> (lines 172-177). \<open>cssRuleAt\<close> is a match of
  \<^verbatim>\<open>[.#][\w-]+\s*\{[^}]*\}\<close> at the head of the rest: the run of \<^verbatim>\<open>[\w-]\<close> must be followed
  by white space or the brace, neither of which is in the class, so the run is the
  maximal one. \<open>cssPropertyAt\<close> is a match of
  \<^verbatim>\<open>(fill|stroke|opacity|clip-path|stroke-width)\s*:\<close> with the flag \<^verbatim>\<open>i\<close>.
\<close>

definition cssRuleAt :: "jstring \<Rightarrow> bool" where
  "cssRuleAt rest =
     (case rest of
        [] \<Rightarrow> False
      | c # r \<Rightarrow>
          (c = 46 \<or> c = hash) \<and>
          (let isIdent = (\<lambda>x. isWordChar x \<or> x = 45);
               after = dropWhile isSpace (dropWhile isIdent r)
           in takeWhile isIdent r \<noteq> [] \<and>
              (case after of
                 [] \<Rightarrow> False
               | b # body \<Rightarrow> b = 123 \<and> 125 \<in> set body)))"

definition cssProperties :: "jstring list" where
  "cssProperties = [js ''fill'', js ''stroke'', js ''opacity'', js ''clip-path'', js ''stroke-width'']"

definition cssPropertyAt :: "jstring \<Rightarrow> bool" where
  "cssPropertyAt rest =
     list_ex (\<lambda>kw. startsWithCI rest kw \<and>
                    startsWith (dropWhile isSpace (drop (length kw) rest)) (js '':''))
       cssProperties"

definition looksLikeCss :: "jstring \<Rightarrow> bool" where
  "looksLikeCss text =
     (if \<not> jsIncludes text (js ''{'') \<or> \<not> jsIncludes text (js ''}'') then False
      else if anyPos (\<lambda>prev rest. cssRuleAt rest) None text then True
      else if anyPos (\<lambda>prev rest. cssPropertyAt rest) None text then True
      else False)"

text \<open>
  \<^verbatim>\<open>\b(kw1|kw2|...)\b\<close> at a position: the keywords start and end with a word character,
  so the boundaries say that the code unit before the position and the one after the
  keyword are not word characters (or are missing).
\<close>

definition isWordBefore :: "int option \<Rightarrow> bool" where
  "isWordBefore prev = (case prev of None \<Rightarrow> False | Some c \<Rightarrow> isWordChar c)"

definition isWordAhead :: "jstring \<Rightarrow> bool" where
  "isWordAhead rest = (case rest of [] \<Rightarrow> False | c # _ \<Rightarrow> isWordChar c)"

definition wordAt :: "jstring list \<Rightarrow> int option \<Rightarrow> jstring \<Rightarrow> bool" where
  "wordAt kws prev rest =
     (\<not> isWordBefore prev \<and>
      list_ex (\<lambda>kw. startsWith rest kw \<and> \<not> isWordAhead (drop (length kw) rest)) kws)"

text \<open>\<^verbatim>\<open>\b(document|window|this)\.\<close> at a position.\<close>

definition memberAccessAt :: "int option \<Rightarrow> jstring \<Rightarrow> bool" where
  "memberAccessAt prev rest =
     (\<not> isWordBefore prev \<and>
      list_ex (\<lambda>kw. startsWith rest (kw @ js ''.''))
        [js ''document'', js ''window'', js ''this''])"

text \<open>\<^verbatim>\<open>[;{}]\s*$\<close> at a position.\<close>

definition statementEndAt :: "jstring \<Rightarrow> bool" where
  "statementEndAt rest =
     (case rest of
        [] \<Rightarrow> False
      | c # r \<Rightarrow> (c = 59 \<or> c = 123 \<or> c = 125) \<and> list_all isSpace r)"

text \<open>\<^verbatim>\<open>looksLikeCode\<close> (lines 179-188).\<close>

definition looksLikeCode :: "jstring \<Rightarrow> bool" where
  "looksLikeCode text =
     (if looksLikeCss text then True
      else if startsWith text (js ''//'') then True
      else if startsWith text (js ''/*'') then True
      else if anyPos (wordAt [js ''const'', js ''let'', js ''var'', js ''function'']) None text then True
      else if anyPos (\<lambda>prev rest. statementEndAt rest) None text then True
      else if anyPos memberAccessAt None text then True
      else if jsIncludes text (js ''=>'') then True
      else False)"

text \<open>\<^verbatim>\<open>cleanText\<close> (lines 190-196).\<close>

definition isBulletGlyph :: "int \<Rightarrow> bool" where
  "isBulletGlyph c = (c = bullet \<or> c = middot)"

definition cleanText :: "jstring \<Rightarrow> jstring" where
  "cleanText text =
     (let cleaned = normalize_js text in
      if cleaned = [] then []
      else if trim (filter (\<lambda>c. \<not> isBulletGlyph c) cleaned) = [] then []
      else if looksLikeCode cleaned then []
      else cleaned)"

text \<open>
  \<^verbatim>\<open>normalizeBullets\<close> (lines 198-202).

  \<open>bulletRunLen\<close> is the length of a match of \<^verbatim>\<open>(?:\s*\<bullet>\s*){2,}\<close> at the head of the rest.
  Every repetition takes white space, one bullet and white space, all greedy, so a match
  covers the whole maximal prefix made of white space and bullets, and there is one
  exactly when that prefix holds at least two bullets.

  \<open>leadingBulletLen\<close> is the length of a match of \<^verbatim>\<open>^\s*\<bullet>\s*\<close> (tried at position 0 only), and
  \<open>trailingBulletLen\<close> the length of a match of \<^verbatim>\<open>\s*\<bullet>\s*$\<close> at the head of the rest. Where
  the first alternative fails at position 0 the second fails there too, and behind
  position 0 only the second can match.
\<close>

definition bulletRunLen :: "jstring \<Rightarrow> nat" where
  "bulletRunLen rest =
     (let run = takeWhile (\<lambda>c. isSpace c \<or> c = bullet) rest in
      if 2 \<le> length (filter (\<lambda>c. c = bullet) run) then length run else 0)"

definition leadingBulletLen :: "jstring \<Rightarrow> nat" where
  "leadingBulletLen text =
     (case dropWhile isSpace text of
        [] \<Rightarrow> 0
      | c # r \<Rightarrow> if c = bullet then length text - length (dropWhile isSpace r) else 0)"

definition trailingBulletLen :: "jstring \<Rightarrow> nat" where
  "trailingBulletLen rest =
     (case dropWhile isSpace rest of
        [] \<Rightarrow> 0
      | c # r \<Rightarrow> if c = bullet \<and> list_all isSpace r then length rest else 0)"

definition normalizeBullets :: "jstring \<Rightarrow> jstring" where
  "normalizeBullets text =
     (let t1 = replaceAll bulletRunLen [space, bullet, space] 0 text;
          t2 = replaceAll trailingBulletLen [] 0 (drop (leadingBulletLen t1) t1)
      in trim t2)"

text \<open>
  \<^verbatim>\<open>fingerprintLine\<close> (lines 204-211), first for any function in the place of
  \<^verbatim>\<open>toLowerCase\<close>. \<open>updatedLen\<close> is the length of a match of
  \<^verbatim>\<open>updated\s+[^\<bullet>]+\<close> at the head of the rest: behind the word the match takes the whole
  maximal run of code units other than the bullet, which must start with white space and
  hold at least two code units (one for \<^verbatim>\<open>\s+\<close>, one for \<^verbatim>\<open>[^\<bullet>]+\<close>).
\<close>

definition updatedLen :: "jstring \<Rightarrow> nat" where
  "updatedLen rest =
     (if startsWith rest (js ''updated'') then
        (let run = takeWhile (\<lambda>c. c \<noteq> bullet) (drop 7 rest) in
         case run of
           [] \<Rightarrow> 0
         | c # _ \<Rightarrow> if isSpace c \<and> 2 \<le> length run then 7 + length run else 0)
      else 0)"

definition fingerprintOf :: "(jstring \<Rightarrow> jstring) \<Rightarrow> jstring \<Rightarrow> jstring" where
  "fingerprintOf lower text =
     trim (filter (\<lambda>c. \<not> isBulletGlyph c)
       (replaceAll updatedLen (js ''updated'') 0
         (collapseSpaces False (lower text))))"

text \<open>
  \<^verbatim>\<open>decorateLine\<close> (lines 213-225). An undefined and an empty \<^verbatim>\<open>linkRef\<close> are both falsy.
  \<open>hashPrefix\<close> is the match of \<^verbatim>\<open>^(#+\s*)\<close>, which succeeds on every line that starts with
  the hash.
\<close>

definition hashPrefix :: "jstring \<Rightarrow> jstring" where
  "hashPrefix line =
     takeWhile (\<lambda>c. c = hash) line @ takeWhile isSpace (dropWhile (\<lambda>c. c = hash) line)"

definition decorateLine :: "jstring \<Rightarrow> jstring option \<Rightarrow> jstring" where
  "decorateLine line linkRef =
     (case linkRef of
        None \<Rightarrow> line
      | Some r \<Rightarrow>
          if r = [] then line
          else if startsWith line (js ''- '') then js ''- '' @ r @ js '' '' @ drop 2 line
          else if startsWith line (js ''#'') then
            hashPrefix line @ r @ js '' '' @ drop (length (hashPrefix line)) line
          else r @ js '' '' @ line)"

section \<open>Configuration\<close>

text \<open>
  \<^verbatim>\<open>ReadableOptions\<close> (lines 3-15): every field may be missing. The numeric options are
  JavaScript numbers, any of them.
\<close>

datatype filter_mode = Summary | Compact | Full

record options =
  opt_selector :: "jstring option"
  opt_maxDepth :: "number option"
  opt_maxItems :: "number option"
  opt_maxListItems :: "number option"
  opt_maxLineLength :: "number option"
  opt_filterMode :: "filter_mode option"
  opt_links :: "bool option"
  opt_dedupe :: "bool option"
  opt_dedupeWindow :: "number option"
  opt_includeFooter :: "bool option"
  opt_includeShell :: "bool option"

text \<open>
  What the closures of the call capture: the constants resolved at lines 33-48 and 53,
  and \<^verbatim>\<open>String.prototype.toLowerCase\<close> of the engine (\<open>toLower\<close>). The source does not hold the
  Unicode tables behind \<^verbatim>\<open>toLowerCase\<close>, so the function is a parameter: the properties
  hold for every function in its place. \<open>maxLineLength\<close> is the only constant assigned
  again (line 82, during the choice of the roots).
\<close>

record config =
  maxDepth :: number
  maxItems :: number
  maxListItems :: number
  maxLineLength :: number
  filterMode :: filter_mode
  lineLimit :: number
  linksEnabled :: bool
  dedupeEnabled :: bool
  dedupeWindow :: number
  includeFooter :: bool
  includeShell :: bool
  preferredSelector :: jstring
  toLower :: "jstring \<Rightarrow> jstring"

text \<open>\<^verbatim>\<open>typeof v === 'number' ? Math.max(lo, v) : dflt\<close>.\<close>

definition atLeastNum :: "number \<Rightarrow> number \<Rightarrow> number option \<Rightarrow> number" where
  "atLeastNum lo dflt v = (case v of None \<Rightarrow> dflt | Some n \<Rightarrow> mathMax lo n)"

definition resolveConfig :: "(jstring \<Rightarrow> jstring) \<Rightarrow> options \<Rightarrow> config" where
  "resolveConfig lower opts =
     \<lparr> maxDepth = atLeastNum (Num 0) (Num 6) (opt_maxDepth opts),
       maxItems = atLeastNum (Num 1) PosInfinity (opt_maxItems opts),
       maxListItems = atLeastNum (Num 1) PosInfinity (opt_maxListItems opts),
       maxLineLength = atLeastNum (Num 40) PosInfinity (opt_maxLineLength opts),
       filterMode = (case opt_filterMode opts of None \<Rightarrow> Summary | Some m \<Rightarrow> m),
       lineLimit =
         (if numIsFinite (atLeastNum (Num 40) PosInfinity (opt_maxLineLength opts))
          then atLeastNum (Num 40) PosInfinity (opt_maxLineLength opts) else Num 300),
       linksEnabled = (opt_links opts \<noteq> Some False),
       dedupeEnabled = (opt_dedupe opts \<noteq> Some False),
       dedupeWindow = atLeastNum (Num 10) (Num 120) (opt_dedupeWindow opts),
       includeFooter = (opt_includeFooter opts = Some True),
       includeShell = (opt_includeShell opts = Some True),
       preferredSelector = (case opt_selector opts of None \<Rightarrow> [] | Some s \<Rightarrow> s),
       toLower = lower \<rparr>"

text \<open>\<^verbatim>\<open>text.toLowerCase()\<close> and \<^verbatim>\<open>fingerprintLine(text)\<close> inside the call.\<close>

definition toLowerCase :: "config \<Rightarrow> jstring \<Rightarrow> jstring" where
  "toLowerCase cfg text = toLower cfg text"

definition fingerprintLine :: "config \<Rightarrow> jstring \<Rightarrow> jstring" where
  "fingerprintLine cfg text = fingerprintOf (toLower cfg) text"

section \<open>Dedup and emission engine\<close>

text \<open>
  The variables of the call that \<^verbatim>\<open>addLine\<close> and the mode switch assign (lines 117-119 and
  157-161).
\<close>

datatype walk_mode = MainWalk | ShellWalk

record emitter =
  itemCount :: nat
  truncated :: bool
  lines :: "jstring list"
  fingerprintWindow :: "jstring list"
  fingerprintSet :: "jstring set"
  shellMode :: bool
  shellRemaining :: int
  walkMode :: walk_mode

definition initEmitter :: emitter where
  "initEmitter =
     \<lparr> itemCount = 0, truncated = False, lines = [], fingerprintWindow = [],
       fingerprintSet = {}, shellMode = False, shellRemaining = 0, walkMode = MainWalk \<rparr>"

text \<open>\<^verbatim>\<open>trimLine\<close> (lines 227-231).\<close>

definition trimLine :: "config \<Rightarrow> jstring \<Rightarrow> jstring" where
  "trimLine cfg text =
     (if \<not> numIsFinite (maxLineLength cfg) then text
      else if leqNum (ofNat (length text)) (maxLineLength cfg) then text
      else trimEnd (sliceTo (numSub (maxLineLength cfg) (Num 1)) text) @ [ellipsis])"

text \<open>
  Lines 248-255: the fingerprint enters the set and the end of the window; when the
  window is then longer than \<open>dedupeWindow\<close> its first entry leaves, and leaves the set
  too unless it is the empty string.
\<close>

definition pushFingerprint :: "config \<Rightarrow> jstring \<Rightarrow> emitter \<Rightarrow> emitter" where
  "pushFingerprint cfg fingerprint e =
     (let s1 = insert fingerprint (fingerprintSet e);
          w1 = fingerprintWindow e @ [fingerprint]
      in if greaterNum (ofNat (length w1)) (dedupeWindow cfg) then
           (let removed = hd w1 in
            e\<lparr>fingerprintWindow := tl w1,
              fingerprintSet := (if removed \<noteq> [] then s1 - {removed} else s1)\<rparr>)
         else e\<lparr>fingerprintWindow := w1, fingerprintSet := s1\<rparr>)"

text \<open>\<^verbatim>\<open>addLine\<close> (lines 233-256).\<close>

definition addLine :: "config \<Rightarrow> jstring \<Rightarrow> jstring option \<Rightarrow> emitter \<Rightarrow> emitter" where
  "addLine cfg line linkRef e =
     (if truncated e then e
      else if shellMode e \<and> shellRemaining e \<le> 0 then e
      else
        (let cleaned = normalizeBullets (cleanText line) in
         if cleaned = [] then e
         else
           (let fingerprint = fingerprintLine cfg cleaned;
                isHeading = startsWith cleaned (js ''#'')
            in if dedupeEnabled cfg \<and> \<not> isHeading \<and> fingerprint \<in> fingerprintSet e then e
               else if geqNum (ofNat (itemCount e)) (maxItems cfg) then e\<lparr>truncated := True\<rparr>
               else
                 (let e1 = e\<lparr>lines := lines e @ [trimLine cfg (decorateLine cleaned linkRef)],
                             itemCount := itemCount e + 1\<rparr>;
                      e2 = (if shellMode e1 then e1\<lparr>shellRemaining := shellRemaining e1 - 1\<rparr>
                            else e1)
                  in if dedupeEnabled cfg then pushFingerprint cfg fingerprint e2 else e2))))"

section \<open>Link registry\<close>

text \<open>
  \<^verbatim>\<open>linkMap\<close>, \<^verbatim>\<open>linkList\<close> and \<^verbatim>\<open>linkCounter\<close> (lines 162-164). An entry of the list is
  the pair of its \<^verbatim>\<open>ref\<close> and its \<^verbatim>\<open>href\<close>.
\<close>

record registry =
  linkMap :: "jstring \<rightharpoonup> jstring"
  linkList :: "(jstring \<times> jstring) list"
  linkCounter :: nat

definition initRegistry :: registry where
  "initRegistry = \<lparr> linkMap = Map.empty, linkList = [], linkCounter = 0 \<rparr>"

text \<open>
  \<^verbatim>\<open>registerLink\<close> (lines 289-307): the result is the reference token, or \<open>None\<close> for
  \<^verbatim>\<open>undefined\<close>. A reference found in the map is used when it is truthy (not empty).
\<close>

definition rejectedHref :: "jstring \<Rightarrow> bool" where
  "rejectedHref trimmed =
     (trimmed = [] \<or> startsWith trimmed (js ''javascript:'') \<or> startsWith trimmed (js ''#'') \<or>
      startsWith trimmed (js ''data:'') \<or> startsWith trimmed (js ''blob:''))"

definition registerLink :: "jstring \<Rightarrow> registry \<Rightarrow> jstring option \<times> registry" where
  "registerLink href r =
     (let trimmed = trim href in
      if rejectedHref trimmed then (None, r)
      else
        (case (case linkMap r trimmed of None \<Rightarrow> None | Some v \<Rightarrow> if v = [] then None else Some v) of
           Some v \<Rightarrow> (Some (js ''@'' @ v), r)
         | None \<Rightarrow>
             (let v = js ''L'' @ numToString (linkCounter r + 1) in
              (Some (js ''@'' @ v),
               r\<lparr>linkCounter := linkCounter r + 1,
                 linkMap := (linkMap r)(trimmed \<mapsto> v),
                 linkList := linkList r @ [(v, trimmed)]\<rparr>))))"

section \<open>Document nodes\<close>

text \<open>
  The document is the host's. An element is modelled with what the extractor reads of
  it: its \<^verbatim>\<open>tagName\<close>, its attributes, its child nodes, and the properties that the host
  computes (the rendered text \<^verbatim>\<open>innerText\<close>, the computed \<^verbatim>\<open>display\<close> and \<^verbatim>\<open>visibility\<close>,
  the resolved \<^verbatim>\<open>currentSrc\<close>, \<^verbatim>\<open>src\<close> and \<^verbatim>\<open>href\<close>, and \<^verbatim>\<open>className\<close>; a missing property is
  the empty string, which is falsy like \<^verbatim>\<open>undefined\<close>). \<open>classNameProp\<close> is the string
  \<^verbatim>\<open>String(el.className || '')\<close>: the attribute \<^verbatim>\<open>class\<close> for an HTML element, and
  \<^verbatim>\<open>[object SVGAnimatedString]\<close> for an SVG element, whose \<^verbatim>\<open>className\<close> is an object. The
  other properties are read from elements where they are strings. A text node has its
  data; \<open>OtherNode\<close> stands for a comment or any other node that is neither an element nor
  a text node.
\<close>

record hostProps =
  innerText :: jstring
  styleDisplay :: jstring
  styleVisibility :: jstring
  currentSrc :: jstring
  srcProp :: jstring
  hrefProp :: jstring
  classNameProp :: jstring

datatype node =
    Element jstring "(jstring \<times> jstring) list" hostProps "node list"
  | TextNode jstring
  | OtherNode

definition isElement :: "node \<Rightarrow> bool" where
  "isElement n = (case n of Element _ _ _ _ \<Rightarrow> True | _ \<Rightarrow> False)"

text \<open>
  \<^verbatim>\<open>el.tagName\<close>, and \<^verbatim>\<open>el.tagName.toLowerCase()\<close> as the extractor computes it. \<open>localName\<close>
  is the name that the selector engine compares with a type selector: in an HTML
  document, the tag name without regard to the case of ASCII letters.
\<close>

definition tagName :: "node \<Rightarrow> jstring" where
  "tagName n = (case n of Element t _ _ _ \<Rightarrow> t | _ \<Rightarrow> [])"

definition tagOf :: "config \<Rightarrow> node \<Rightarrow> jstring" where
  "tagOf cfg n = toLowerCase cfg (tagName n)"

definition localName :: "node \<Rightarrow> jstring" where
  "localName n = lowerAscii (tagName n)"

definition propsOf :: "node \<Rightarrow> hostProps" where
  "propsOf n =
     (case n of
        Element _ _ p _ \<Rightarrow> p
      | _ \<Rightarrow> \<lparr> innerText = [], styleDisplay = [], styleVisibility = [], currentSrc = [],
              srcProp = [], hrefProp = [], classNameProp = [] \<rparr>)"

definition childNodes :: "node \<Rightarrow> node list" where
  "childNodes n = (case n of Element _ _ _ cs \<Rightarrow> cs | _ \<Rightarrow> [])"

text \<open>\<^verbatim>\<open>el.children\<close>: the child nodes that are elements.\<close>

definition children :: "node \<Rightarrow> node list" where
  "children n = filter isElement (childNodes n)"

text \<open>\<^verbatim>\<open>el.getAttribute(name)\<close>, \<open>None\<close> for \<^verbatim>\<open>null\<close>, and \<^verbatim>\<open>el.hasAttribute(name)\<close>.\<close>

definition getAttribute :: "node \<Rightarrow> jstring \<Rightarrow> jstring option" where
  "getAttribute n name = (case n of Element _ attrs _ _ \<Rightarrow> map_of attrs name | _ \<Rightarrow> None)"

definition hasAttribute :: "node \<Rightarrow> jstring \<Rightarrow> bool" where
  "hasAttribute n name = (getAttribute n name \<noteq> None)"

text \<open>\<^verbatim>\<open>el.getAttribute(name) || ''\<close>.\<close>

definition attributeOrEmpty :: "node \<Rightarrow> jstring \<Rightarrow> jstring" where
  "attributeOrEmpty n name = (case getAttribute n name of None \<Rightarrow> [] | Some v \<Rightarrow> v)"

text \<open>\<^verbatim>\<open>el.textContent\<close>: the data of the text nodes below the element, in document order.\<close>

fun textContent :: "node \<Rightarrow> jstring"
  and textContentOfAll :: "node list \<Rightarrow> jstring" where
  "textContent (Element t a p cs) = textContentOfAll cs"
| "textContent (TextNode s) = s"
| "textContent OtherNode = []"
| "textContentOfAll [] = []"
| "textContentOfAll (c # cs) = textContent c @ textContentOfAll cs"

text \<open>The elements below a node, in document order: \<^verbatim>\<open>el.querySelectorAll('*')\<close>.\<close>

fun descendantNodes :: "node \<Rightarrow> node list"
  and descendantNodesOfAll :: "node list \<Rightarrow> node list" where
  "descendantNodes (Element t a p cs) = descendantNodesOfAll cs"
| "descendantNodes (TextNode s) = []"
| "descendantNodes OtherNode = []"
| "descendantNodesOfAll [] = []"
| "descendantNodesOfAll (c # cs) =
     (if isElement c then c # descendantNodes c else []) @ descendantNodesOfAll cs"

text \<open>
  The selectors that the extractor writes out are comma lists of compound selectors made
  of a type selector and attribute tests: \<open>ByTag\<close> is \<^verbatim>\<open>tag\<close>, \<open>ByAttr\<close> is
  \<^verbatim>\<open>[name="value"]\<close>, \<open>WithAttr\<close> is \<^verbatim>\<open>[name]\<close>, \<open>AnyElement\<close> is \<^verbatim>\<open>*\<close>. A selector is the list
  of its alternatives, each the list of its tests.
\<close>

datatype simple_selector = ByTag jstring | ByAttr jstring jstring | WithAttr jstring | AnyElement

type_synonym selector = "simple_selector list list"

fun matchesSimple :: "node \<Rightarrow> simple_selector \<Rightarrow> bool" where
  "matchesSimple n (ByTag t) = (isElement n \<and> localName n = t)"
| "matchesSimple n (ByAttr name v) = (getAttribute n name = Some v)"
| "matchesSimple n (WithAttr name) = hasAttribute n name"
| "matchesSimple n AnyElement = isElement n"

definition matchesSelector :: "selector \<Rightarrow> node \<Rightarrow> bool" where
  "matchesSelector sel n = list_ex (\<lambda>compound. list_all (matchesSimple n) compound) sel"

definition tags :: "string list \<Rightarrow> selector" where
  "tags ts = map (\<lambda>t. [ByTag (js t)]) ts"

definition querySelectorAll :: "node \<Rightarrow> selector \<Rightarrow> node list" where
  "querySelectorAll n sel = filter (matchesSelector sel) (descendantNodes n)"

text \<open>\<^verbatim>\<open>el.querySelector(sel)\<close> is used for its truth only, or for its first match.\<close>

definition querySelector :: "node \<Rightarrow> selector \<Rightarrow> node option" where
  "querySelector n sel = find (matchesSelector sel) (descendantNodes n)"

definition selInteractive :: selector where
  "selInteractive =
     [[ByTag (js ''button'')], [ByTag (js ''a'')], [ByAttr (js ''role'') (js ''button'')],
      [ByAttr (js ''role'') (js ''link'')]]"

definition selAnchorWithHref :: selector where
  "selAnchorWithHref = [[ByTag (js ''a''), WithAttr (js ''href'')]]"

text \<open>
  An element as the walk meets it. Some tests look upwards or sideways
  (\<^verbatim>\<open>el.closest\<close>, \<^verbatim>\<open>el.parentElement\<close>, \<^verbatim>\<open>el.previousElementSibling\<close>) or compare elements
  by identity (\<^verbatim>\<open>rootSet.has(el)\<close>, \<^verbatim>\<open>root.contains(node)\<close>). So the walk carries, with the
  node, its path from the document element (the indices among the child nodes), its
  ancestors (the parent first) and the element before it among its siblings. The tests
  that look upwards read the tag and the attributes of an ancestor only, so an ancestor
  is kept without its child nodes (\<open>shallow\<close>).
\<close>

definition shallow :: "node \<Rightarrow> node" where
  "shallow n = (case n of Element t a p cs \<Rightarrow> Element t a p [] | _ \<Rightarrow> n)"

record elem =
  el_node :: node
  el_path :: "nat list"
  el_parents :: "node list"
  el_prev :: "node option"

fun childElemsFrom :: "node list \<Rightarrow> nat list \<Rightarrow> node list \<Rightarrow> nat \<Rightarrow> node option \<Rightarrow> elem list" where
  "childElemsFrom [] path parents i prev = []"
| "childElemsFrom (c # cs) path parents i prev =
     (if isElement c then
        \<lparr> el_node = c, el_path = path @ [i], el_parents = parents, el_prev = prev \<rparr>
          # childElemsFrom cs path parents (i + 1) (Some c)
      else childElemsFrom cs path parents (i + 1) prev)"

text \<open>\<^verbatim>\<open>Array.from(el.children)\<close>, each child with its place.\<close>

definition childElems :: "elem \<Rightarrow> elem list" where
  "childElems h =
     childElemsFrom (childNodes (el_node h)) (el_path h) (shallow (el_node h) # el_parents h) 0 None"

text \<open>The elements below a node with their places, in document order.\<close>

fun descendantElems :: "node \<Rightarrow> nat list \<Rightarrow> node list \<Rightarrow> elem list"
  and descendantElemsFrom :: "node list \<Rightarrow> nat list \<Rightarrow> node list \<Rightarrow> nat \<Rightarrow> node option \<Rightarrow> elem list" where
  "descendantElems (Element t a p cs) path parents =
     descendantElemsFrom cs path (Element t a p [] # parents) 0 None"
| "descendantElems (TextNode s) path parents = []"
| "descendantElems OtherNode path parents = []"
| "descendantElemsFrom [] path parents i prev = []"
| "descendantElemsFrom (c # cs) path parents i prev =
     (if isElement c then
        \<lparr> el_node = c, el_path = path @ [i], el_parents = parents, el_prev = prev \<rparr>
          # descendantElems c (path @ [i]) parents
          @ descendantElemsFrom cs path parents (i + 1) (Some c)
      else descendantElemsFrom cs path parents (i + 1) prev)"

text \<open>\<^verbatim>\<open>el.closest(sel)\<close>, for its truth: the element or one of its ancestors matches.\<close>

definition closest :: "elem \<Rightarrow> selector \<Rightarrow> bool" where
  "closest h sel = list_ex (matchesSelector sel) (el_node h # el_parents h)"

text \<open>\<^verbatim>\<open>root.contains(node)\<close>: the node is the root or below it.\<close>

definition containsElem :: "elem \<Rightarrow> elem \<Rightarrow> bool" where
  "containsElem ancestor h = (take (length (el_path ancestor)) (el_path h) = el_path ancestor)"

text \<open>
  What the walk knows besides the configuration: whether the host has a window with
  \<^verbatim>\<open>getComputedStyle\<close>, and the sets \<^verbatim>\<open>rootSet\<close> and \<^verbatim>\<open>shellRootSet\<close> (lines 108, 116), kept
  as the paths of their elements.
\<close>

record env =
  envConfig :: config
  envWindow :: bool
  rootSet :: "nat list list"
  shellRootSet :: "nat list list"

definition SKIP_TAGS :: "jstring list" where
  "SKIP_TAGS = map js [''script'', ''style'', ''svg'', ''noscript'', ''template'', ''canvas'',
     ''iframe'', ''head'', ''meta'', ''link'']"

definition HEADING_TAGS :: "jstring list" where
  "HEADING_TAGS = map js [''h1'', ''h2'', ''h3'', ''h4'', ''h5'', ''h6'']"

definition HEADING_LIKE_TAGS :: "jstring list" where
  "HEADING_LIKE_TAGS = map js [''summary'', ''legend'']"

definition BLOCK_TEXT_TAGS :: "jstring list" where
  "BLOCK_TEXT_TAGS = map js [''p'', ''blockquote'', ''pre'', ''figcaption'', ''address'', ''dd'', ''dt'']"

definition CONTAINER_TAGS :: "jstring list" where
  "CONTAINER_TAGS = map js [''section'', ''article'', ''main'', ''div'', ''aside'', ''header'',
     ''footer'', ''form'', ''fieldset'']"

text \<open>\<^verbatim>\<open>isHidden\<close> (lines 267-275).\<close>

definition isHidden :: "env \<Rightarrow> node \<Rightarrow> bool" where
  "isHidden env el =
     (if hasAttribute el (js ''hidden'') then True
      else if getAttribute el (js ''aria-hidden'') = Some (js ''true'') then True
      else if \<not> envWindow env then False
      else if styleDisplay (propsOf el) = js ''none'' \<or> styleVisibility (propsOf el) = js ''hidden''
        then True
      else False)"

text \<open>\<^verbatim>\<open>shouldSkip\<close> (lines 277-287).\<close>

definition shouldSkip :: "env \<Rightarrow> walk_mode \<Rightarrow> elem \<Rightarrow> bool" where
  "shouldSkip env mode h =
     (if includeFooter (envConfig env) then False
      else if el_path h \<in> set (rootSet env) then False
      else if el_path h \<in> set (shellRootSet env) then False
      else if closest h [[ByTag (js ''footer'')], [ByAttr (js ''role'') (js ''contentinfo'')]] then True
      else if mode = MainWalk \<and>
              closest h [[ByTag (js ''header'')], [ByTag (js ''nav'')],
                         [ByAttr (js ''role'') (js ''navigation'')], [ByTag (js ''aside'')]] then True
      else if mode = ShellWalk \<and> closest h (tags [''main'', ''article'']) then True
      else False)"

text \<open>
  \<^verbatim>\<open>getLinkRef\<close> (lines 309-322), for an element. The \<^verbatim>\<open>href\<close> is the attribute, or the
  property when the attribute is missing or empty.
\<close>

definition anchorHref :: "node \<Rightarrow> jstring" where
  "anchorHref anchor =
     (case getAttribute anchor (js ''href'') of
        None \<Rightarrow> hrefProp (propsOf anchor)
      | Some v \<Rightarrow> if v = [] then hrefProp (propsOf anchor) else v)"

definition getLinkRef :: "config \<Rightarrow> node \<Rightarrow> registry \<Rightarrow> jstring option \<times> registry" where
  "getLinkRef cfg el r =
     (if \<not> linksEnabled cfg then (None, r)
      else
        (case (if tagOf cfg el = js ''a'' then Some el else querySelector el selAnchorWithHref) of
           None \<Rightarrow> (None, r)
         | Some anchor \<Rightarrow>
             if anchorHref anchor = [] then (None, r) else registerLink (anchorHref anchor) r))"

text \<open>\<^verbatim>\<open>getHeadingLevel\<close> (lines 324-331).\<close>

definition getHeadingLevel :: "node \<Rightarrow> jstring \<Rightarrow> number" where
  "getHeadingLevel el tag =
     (if tag \<in> set HEADING_TAGS then stringToNumber (drop 1 tag)
      else if getAttribute el (js ''role'') = Some (js ''heading'') then
        (let level = stringToNumber
                       (if attributeOrEmpty el (js ''aria-level'') = [] then js ''3''
                        else attributeOrEmpty el (js ''aria-level''))
         in if numIsFinite level \<and> greaterNum level (Num 0) then level else Num 3)
      else Num 3)"

text \<open>
  \<^verbatim>\<open>collectInlineText\<close> (lines 333-359) and \<^verbatim>\<open>extractInlineText\<close> (line 361). Collecting
  the text of an anchor registers its link, so the registry is passed through.
\<close>

fun collectInlineText :: "env \<Rightarrow> node \<Rightarrow> registry \<Rightarrow> jstring \<times> registry"
  and collectParts :: "env \<Rightarrow> node list \<Rightarrow> registry \<Rightarrow> jstring list \<times> registry" where
  "collectInlineText env (Element t a p cs) r =
     (case collectParts env cs r of (parts, r') \<Rightarrow> (joinWith (js '' '') parts, r'))"
| "collectInlineText env (TextNode s) r = ([], r)"
| "collectInlineText env OtherNode r = ([], r)"
| "collectParts env [] r = ([], r)"
| "collectParts env (TextNode s # ns) r =
     (case collectParts env ns r of (parts, r') \<Rightarrow> (if s \<noteq> [] then s # parts else parts, r'))"
| "collectParts env (OtherNode # ns) r = collectParts env ns r"
| "collectParts env (Element t a p cs # ns) r =
     (let child = Element t a p cs; tag = toLowerCase (envConfig env) t in
      if tag \<in> set SKIP_TAGS then collectParts env ns r
      else if tag = js ''a'' then
        (let text = cleanText (textContent child) in
         if text \<noteq> [] then
           (case getLinkRef (envConfig env) child r of
              (linkRef, r1) \<Rightarrow>
                (case collectParts env ns r1 of
                   (parts, r2) \<Rightarrow>
                     ((case linkRef of
                         None \<Rightarrow> text
                       | Some l \<Rightarrow> js ''['' @ text @ js '']'' @ l) # parts, r2)))
         else collectParts env ns r)
      else if tag \<in> set HEADING_TAGS \<or> tag \<in> set HEADING_LIKE_TAGS then collectParts env ns r
      else if tag \<in> set BLOCK_TEXT_TAGS \<or> tag = js ''ul'' \<or> tag = js ''ol'' then collectParts env ns r
      else if isHidden env child then collectParts env ns r
      else
        (case collectInlineText env child r of
           (text, r1) \<Rightarrow>
             (case collectParts env ns r1 of (parts, r2) \<Rightarrow> (text # parts, r2))))"

definition extractInlineText :: "env \<Rightarrow> node \<Rightarrow> registry \<Rightarrow> jstring \<times> registry" where
  "extractInlineText env el r =
     (case collectInlineText env el r of (text, r') \<Rightarrow> (cleanText text, r'))"

text \<open>\<^verbatim>\<open>compactText\<close> (lines 363-378).\<close>

definition compactText :: "config \<Rightarrow> node \<Rightarrow> jstring" where
  "compactText cfg el =
     (let parts = filter (\<lambda>part. part \<noteq> []) (map cleanText (splitNewlines (innerText (propsOf el))));
          unique = foldl (\<lambda>u part.
                     if u = [] \<or> last u = [] \<or> toLowerCase cfg (last u) \<noteq> toLowerCase cfg part
                     then u @ [part] else u) [] parts;
          joined = normalizeBullets (joinWith ([space, bullet, space]) unique)
      in trimLine cfg joined)"

text \<open>\<^verbatim>\<open>isStandaloneInline\<close> (lines 380-388).\<close>

definition isStandaloneInline :: "config \<Rightarrow> elem \<Rightarrow> bool" where
  "isStandaloneInline cfg h =
     (case el_parents h of
        [] \<Rightarrow> True
      | parent # _ \<Rightarrow>
          (let tag = tagOf cfg parent in
           if tag \<in> set HEADING_TAGS \<or> tag \<in> set HEADING_LIKE_TAGS then False
           else if tag \<in> set BLOCK_TEXT_TAGS then False
           else if tag = js ''li'' \<or> tag = js ''button'' \<or> tag = js ''a'' \<or> tag = js ''label'' then False
           else True))"

text \<open>\<^verbatim>\<open>isCard\<close>, \<^verbatim>\<open>hasBlockChildren\<close>, \<^verbatim>\<open>shouldSummarizeCard\<close> (lines 390-422).\<close>

definition isCard :: "config \<Rightarrow> node \<Rightarrow> bool" where
  "isCard cfg el =
     (if tagOf cfg el = js ''article'' then True
      else if getAttribute el (js ''role'') = Some (js ''article'') \<or>
              getAttribute el (js ''role'') = Some (js ''listitem'') then True
      else if jsIncludes (attributeOrEmpty el (js ''data-testid'')) (js ''card'') \<or>
              jsIncludes (attributeOrEmpty el (js ''data-testid'')) (js ''model'') then True
      else False)"

definition hasBlockChildren :: "config \<Rightarrow> node \<Rightarrow> bool" where
  "hasBlockChildren cfg el =
     list_ex (\<lambda>child.
        tagOf cfg child \<in> set HEADING_TAGS \<or> tagOf cfg child \<in> set HEADING_LIKE_TAGS \<or>
        tagOf cfg child \<in> set BLOCK_TEXT_TAGS \<or> tagOf cfg child = js ''ul'' \<or>
        tagOf cfg child = js ''ol'' \<or> tagOf cfg child = js ''li'' \<or> tagOf cfg child = js ''article'')
       (children el)"

definition shouldSummarizeCard :: "env \<Rightarrow> elem \<Rightarrow> bool" where
  "shouldSummarizeCard env h =
     (if \<not> isCard (envConfig env) (el_node h) then False
      else if el_path h \<in> set (rootSet env) then False
      else if hasBlockChildren (envConfig env) (el_node h) then False
      else if greaterNum (ofNat (length (cleanText (innerText (propsOf (el_node h))))))
                (numMul (lineLimit (envConfig env)) (Num 2)) then False
      else True)"

text \<open>\<^verbatim>\<open>isActiveChip\<close> (lines 437-454).\<close>

definition isActiveChip :: "config \<Rightarrow> node \<Rightarrow> bool" where
  "isActiveChip cfg el =
     (if getAttribute el (js ''aria-pressed'') = Some (js ''true'') then True
      else if getAttribute el (js ''aria-selected'') = Some (js ''true'') then True
      else if attributeOrEmpty el (js ''aria-current'') \<noteq> [] \<and>
              attributeOrEmpty el (js ''aria-current'') \<noteq> js ''false'' then True
      else if attributeOrEmpty el (js ''data-state'') \<in> set (map js [''checked'', ''selected'', ''active''])
        then True
      else
        (let className = toLowerCase cfg (classNameProp (propsOf el)) in
         jsIncludes className (js ''active'') \<or> jsIncludes className (js ''selected'') \<or>
         jsIncludes className (js ''checked'')))"

text \<open>
  \<^verbatim>\<open>findGroupLabel\<close> (lines 456-527). \<open>resetAt\<close> is \<^verbatim>\<open>/^reset\b/i\<close>. \<open>firstLabel\<close> is one of its
  three loops: the first eligible node whose inline text is a plausible label of at most
  \<open>limit\<close> code units; the texts it extracts on the way register their links.
\<close>

definition resetAt :: "jstring \<Rightarrow> bool" where
  "resetAt text = (startsWithCI text (js ''reset'') \<and> \<not> isWordAhead (drop 5 text))"

definition isLabelCandidate :: "jstring \<Rightarrow> bool" where
  "isLabelCandidate text =
     (if text = [] then False
      else if \<not> list_ex isAlpha text \<and> list_ex isDigit text then False
      else
        (let digitCount = countDigitRuns False text;
             tokenCount = length (splitSpaces text)
         in if 3 \<le> digitCount then False
            else if 2 \<le> digitCount \<and> 3 \<le> tokenCount then False
            else if (startsWith text (js ''<'') \<or> startsWith text (js ''>'')) \<and> 1 \<le> digitCount then False
            else if resetAt text then False
            else True))"

definition isInteractive :: "config \<Rightarrow> node \<Rightarrow> bool" where
  "isInteractive cfg n =
     (if tagOf cfg n = js ''button'' \<or> tagOf cfg n = js ''a'' then True
      else if getAttribute n (js ''role'') = Some (js ''button'') \<or>
              getAttribute n (js ''role'') = Some (js ''link'') then True
      else False)"

fun firstLabel :: "env \<Rightarrow> (node \<Rightarrow> bool) \<Rightarrow> nat \<Rightarrow> node list \<Rightarrow> registry \<Rightarrow> jstring option \<times> registry" where
  "firstLabel env eligible limit [] r = (None, r)"
| "firstLabel env eligible limit (n # ns) r =
     (if eligible n then
        (case extractInlineText env n r of
           (text, r1) \<Rightarrow>
             if text \<noteq> [] \<and> length text \<le> limit \<and> isLabelCandidate text then (Some text, r1)
             else firstLabel env eligible limit ns r1)
      else firstLabel env eligible limit ns r)"

definition isLabelElement :: "config \<Rightarrow> node \<Rightarrow> bool" where
  "isLabelElement cfg child =
     (tagOf cfg child \<in> set HEADING_TAGS \<or> tagOf cfg child \<in> set HEADING_LIKE_TAGS \<or>
      tagOf cfg child \<in> set (map js [''label'', ''strong'', ''span'', ''p'']))"

definition isPlainElement :: "config \<Rightarrow> node \<Rightarrow> bool" where
  "isPlainElement cfg n = (\<not> isInteractive cfg n \<and> querySelector n selInteractive = None)"

definition findGroupLabel :: "env \<Rightarrow> elem \<Rightarrow> registry \<Rightarrow> jstring option \<times> registry" where
  "findGroupLabel env h r =
     (let el = el_node h;
          ariaLabel = cleanText (attributeOrEmpty el (js ''aria-label''))
      in if ariaLabel \<noteq> [] \<and> isLabelCandidate ariaLabel then (Some ariaLabel, r)
         else
           (case firstLabel env (isLabelElement (envConfig env)) 40 (children el) r of
              (Some text, r1) \<Rightarrow> (Some text, r1)
            | (None, r1) \<Rightarrow>
                (case firstLabel env (isPlainElement (envConfig env)) 30 (children el) r1 of
                   (Some text, r2) \<Rightarrow> (Some text, r2)
                 | (None, r2) \<Rightarrow>
                     (case firstLabel env (isPlainElement (envConfig env)) 30 (descendantNodes el) r2 of
                        (Some text, r3) \<Rightarrow> (Some text, r3)
                      | (None, r3) \<Rightarrow>
                          (case el_prev h of
                             None \<Rightarrow> (None, r3)
                           | Some prev \<Rightarrow> firstLabel env (isPlainElement (envConfig env)) 30 [prev] r3)))))"

text \<open>
  \<^verbatim>\<open>extractFilterGroup\<close> (lines 529-558). \<open>extractTexts\<close> is
  \<^verbatim>\<open>nodes.map((node) => extractInlineText(node)).filter(Boolean)\<close>. The ratio test
  \<^verbatim>\<open>shortRatio < 0.7\<close> is written without the division.
\<close>

record filterGroup =
  label :: jstring
  items :: "jstring list"
  activeItems :: "jstring list"

fun extractTexts :: "env \<Rightarrow> node list \<Rightarrow> registry \<Rightarrow> jstring list \<times> registry" where
  "extractTexts env [] r = ([], r)"
| "extractTexts env (n # ns) r =
     (case extractInlineText env n r of
        (text, r1) \<Rightarrow>
          (case extractTexts env ns r1 of
             (texts, r2) \<Rightarrow> (if text \<noteq> [] then text # texts else texts, r2)))"

definition extractFilterGroup :: "env \<Rightarrow> elem \<Rightarrow> registry \<Rightarrow> filterGroup option \<times> registry" where
  "extractFilterGroup env h r =
     (let el = el_node h in
      if tagOf (envConfig env) el \<notin> set CONTAINER_TAGS then (None, r)
      else if el_path h \<in> set (rootSet env) then (None, r)
      else if querySelector el [[ByTag (js ''h1'')],
                 [ByAttr (js ''role'') (js ''heading''), ByAttr (js ''aria-level'') (js ''1'')]] \<noteq> None
        then (None, r)
      else if querySelector el (tags [''article'', ''table'', ''ul'', ''ol'']) \<noteq> None then (None, r)
      else
        (case findGroupLabel env h r of
           (None, r1) \<Rightarrow> (None, r1)
         | (Some lab, r1) \<Rightarrow>
             (let chipNodes = filter (\<lambda>n. \<not> isHidden env n) (querySelectorAll el selInteractive) in
              if length chipNodes < 3 then (None, r1)
              else
                (case extractTexts env chipNodes r1 of
                   (its, r2) \<Rightarrow>
                     if length its < 2 then (None, r2)
                     else if length (filter (\<lambda>item. length item \<le> 40) its) * 10 < 7 * max (length its) 1
                       then (None, r2)
                     else
                       (case extractTexts env (filter (isActiveChip (envConfig env)) chipNodes) r2 of
                          (act, r3) \<Rightarrow>
                            (Some \<lparr> label = lab, items = its, activeItems = act \<rparr>, r3))))))"

text \<open>
  \<^verbatim>\<open>formatFilterGroup\<close> (lines 560-603). \<open>plusDigits\<close> is the group of a match of
  \<^verbatim>\<open>/^\+\s*(\d+)$/\<close>: the whole item is a plus sign, optional white space and digits.
\<close>

definition plusDigits :: "jstring \<Rightarrow> jstring option" where
  "plusDigits item =
     (case item of
        [] \<Rightarrow> None
      | c # rest \<Rightarrow>
          (let ds = dropWhile isSpace rest in
           if c = 43 \<and> ds \<noteq> [] \<and> list_all isDigit ds then Some ds else None))"

definition formatFilterGroup :: "config \<Rightarrow> filterGroup \<Rightarrow> jstring" where
  "formatFilterGroup cfg g =
     (let cleanedItems = filter (\<lambda>item. \<not> resetAt item) (items g);
          extraCount = foldl (\<lambda>n item. case plusDigits item of
                                          None \<Rightarrow> n
                                        | Some ds \<Rightarrow> numAdd n (stringToNumber ds))
                         (Num 0) cleanedItems;
          filtered = filter (\<lambda>item. plusDigits item = None) cleanedItems;
          uniqueItems = foldl (\<lambda>u item. if toLowerCase cfg item \<in> set (map (toLowerCase cfg) u) then u
                                        else u @ [item])
                          [] filtered;
          seen = map (toLowerCase cfg) uniqueItems;
          activeUnique = filter (\<lambda>item. toLowerCase cfg item \<in> set seen) (activeItems g);
          remaining = filter (\<lambda>item. \<not> list_ex (\<lambda>active. toLowerCase cfg active = toLowerCase cfg item)
                                              activeUnique)
                        uniqueItems;
          selected = (if filterMode cfg = Compact then sliceTo (maxListItems cfg) (activeUnique @ remaining)
                      else sliceTo (maxListItems cfg) uniqueItems)
      in if selected = [] then []
         else
           (let remainingCount = ofNat (length uniqueItems - length selected);
                moreCount = numAdd remainingCount extraCount;
                suffix = (if greaterNum moreCount (Num 0)
                          then js '' (+'' @ numberToString moreCount @ js '' more)'' else [])
            in label g @ js '': '' @ joinWith (js '', '') selected @ suffix))"

section \<open>Tree walker\<close>

text \<open>
  The walk changes the emitter (through \<^verbatim>\<open>addLine\<close>) and the link registry (through
  \<^verbatim>\<open>registerLink\<close>); its state is the pair of them.
\<close>

type_synonym state = "emitter \<times> registry"

definition emit :: "config \<Rightarrow> jstring \<Rightarrow> jstring option \<Rightarrow> state \<Rightarrow> state" where
  "emit cfg line linkRef s = (addLine cfg line linkRef (fst s), snd s)"

text \<open>\<^verbatim>\<open>'  '.repeat(listDepth)\<close> and \<^verbatim>\<open>'#'.repeat(n)\<close>.\<close>

definition indent :: "nat \<Rightarrow> jstring" where
  "indent listDepth = concat (replicate listDepth (js ''  ''))"

definition hashes :: "number \<Rightarrow> jstring" where
  "hashes n = repeatString (js ''#'') n"

text \<open>
  \<^verbatim>\<open>emitHiddenHeading\<close> (lines 258-265); the walk returns after it whatever it answers
  (lines 626-629), so only its effect is kept.
\<close>

definition emitHiddenHeading :: "config \<Rightarrow> node \<Rightarrow> emitter \<Rightarrow> emitter" where
  "emitHiddenHeading cfg el e =
     (if textContent el = [] then e
      else if 2 < length (children el) then e
      else
        (let text = cleanText (textContent el) in
         if text = [] \<or> 60 < length text then e
         else addLine cfg (js ''### '' @ text) None e))"

text \<open>Lines 636-648: a heading.\<close>

definition walkHeading :: "env \<Rightarrow> node \<Rightarrow> state \<Rightarrow> state" where
  "walkHeading env el s =
     (case extractInlineText env el (snd s) of
        (text, r1) \<Rightarrow>
          if text \<noteq> [] then
            emit (envConfig env)
              (hashes (mathMin (mathMax (getHeadingLevel el (tagOf (envConfig env) el)) (Num 1)) (Num 6)) @
               js '' '' @ text)
              None (fst s, r1)
          else (fst s, r1))"

text \<open>Lines 650-654: a block quote.\<close>

definition walkBlockquote :: "env \<Rightarrow> node \<Rightarrow> state \<Rightarrow> state" where
  "walkBlockquote env el s =
     (case extractInlineText env el (snd s) of
        (text, r1) \<Rightarrow>
          if text \<noteq> [] then emit (envConfig env) (js ''> '' @ text) None (fst s, r1) else (fst s, r1))"

text \<open>
  Lines 656-685: a figure, an image, a video. The source is registered with
  \<^verbatim>\<open>registerLink\<close> itself, whatever \<^verbatim>\<open>linksEnabled\<close> says.
\<close>

definition registerSource :: "jstring \<Rightarrow> registry \<Rightarrow> jstring option \<times> registry" where
  "registerSource source r = (if source \<noteq> [] then registerLink source r else (None, r))"

definition firstNonEmpty :: "jstring list \<Rightarrow> jstring" where
  "firstNonEmpty xs = (case filter (\<lambda>x. x \<noteq> []) xs of [] \<Rightarrow> [] | x # _ \<Rightarrow> x)"

definition walkFigure :: "env \<Rightarrow> node \<Rightarrow> state \<Rightarrow> state" where
  "walkFigure env el s =
     (case (case querySelector el (tags [''figcaption'']) of
              None \<Rightarrow> ([], snd s)
            | Some captionEl \<Rightarrow> extractInlineText env captionEl (snd s)) of
        (caption, r1) \<Rightarrow>
          (let img = querySelector el (tags [''img'']);
               video = querySelector el (tags [''video'']);
               lab = firstNonEmpty
                       [caption,
                        (case img of None \<Rightarrow> [] | Some i \<Rightarrow> attributeOrEmpty i (js ''alt'')),
                        js ''Media''];
               source = firstNonEmpty
                       [(case img of None \<Rightarrow> []
                         | Some i \<Rightarrow> firstNonEmpty [currentSrc (propsOf i), srcProp (propsOf i)]),
                        (case video of None \<Rightarrow> []
                         | Some v \<Rightarrow> firstNonEmpty [currentSrc (propsOf v), srcProp (propsOf v),
                                                    attributeOrEmpty v (js ''poster'')])]
           in case registerSource source r1 of
                (linkRef, r2) \<Rightarrow>
                  if lab \<noteq> [] then emit (envConfig env) (js ''- '' @ lab) linkRef (fst s, r2)
                  else (fst s, r2)))"

definition walkImg :: "env \<Rightarrow> node \<Rightarrow> state \<Rightarrow> state" where
  "walkImg env el s =
     (let alt = firstNonEmpty [cleanText (attributeOrEmpty el (js ''alt'')), js ''Image''];
          source = firstNonEmpty [currentSrc (propsOf el), srcProp (propsOf el)]
      in case registerSource source (snd s) of
           (linkRef, r1) \<Rightarrow> emit (envConfig env) (js ''- '' @ alt) linkRef (fst s, r1))"

definition walkVideo :: "env \<Rightarrow> node \<Rightarrow> state \<Rightarrow> state" where
  "walkVideo env el s =
     (let caption = firstNonEmpty [cleanText (attributeOrEmpty el (js ''aria-label'')), js ''Video''];
          source = firstNonEmpty [currentSrc (propsOf el), srcProp (propsOf el),
                                  attributeOrEmpty el (js ''poster'')]
      in case registerSource source (snd s) of
           (linkRef, r1) \<Rightarrow> emit (envConfig env) (js ''- '' @ caption) linkRef (fst s, r1))"

text \<open>Lines 687-692: the line of a list item, before its nested lists are walked.\<close>

definition walkListItemLine :: "env \<Rightarrow> node \<Rightarrow> nat \<Rightarrow> state \<Rightarrow> state" where
  "walkListItemLine env el listDepth s =
     (case extractInlineText env el (snd s) of
        (inline, r1) \<Rightarrow>
          (let text = firstNonEmpty [inline, compactText (envConfig env) el] in
           case getLinkRef (envConfig env) el r1 of
             (linkRef, r2) \<Rightarrow>
               if text \<noteq> [] then
                 emit (envConfig env) (indent listDepth @ js ''- '' @ text) linkRef (fst s, r2)
               else (fst s, r2)))"

text \<open>
  Lines 703-757, the cases of \<^verbatim>\<open>walk\<close> behind the list item and before the loop over the
  children: a filter group, a card, a block of text, a compact container, a standalone
  button or anchor, a leaf. The answer says whether \<^verbatim>\<open>walk\<close> returned in one of them; when
  it did not, the registry may still have changed (the texts extracted on the way have
  registered their links).
\<close>

definition walkFilterGroup :: "env \<Rightarrow> elem \<Rightarrow> nat \<Rightarrow> state \<Rightarrow> bool \<times> state" where
  "walkFilterGroup env h listDepth s =
     (case extractFilterGroup env h (snd s) of
        (None, r1) \<Rightarrow> (False, (fst s, r1))
      | (Some g, r1) \<Rightarrow>
          if filterMode (envConfig env) \<noteq> Full then
            (let line = formatFilterGroup (envConfig env) g in
             if line \<noteq> [] then
               (True, emit (envConfig env) (indent listDepth @ js ''- '' @ line) None (fst s, r1))
             else (True, (fst s, r1)))
          else (False, (fst s, r1)))"

definition walkCard :: "env \<Rightarrow> elem \<Rightarrow> nat \<Rightarrow> state \<Rightarrow> state" where
  "walkCard env h listDepth s =
     (let text = compactText (envConfig env) (el_node h) in
      case getLinkRef (envConfig env) (el_node h) (snd s) of
        (linkRef, r1) \<Rightarrow>
          if text \<noteq> [] then
            emit (envConfig env) (indent listDepth @ js ''- '' @ text) linkRef (fst s, r1)
          else (fst s, r1))"

definition walkBlockText :: "env \<Rightarrow> node \<Rightarrow> state \<Rightarrow> state" where
  "walkBlockText env el s =
     (case extractInlineText env el (snd s) of
        (text, r1) \<Rightarrow>
          if text \<noteq> [] then emit (envConfig env) text None (fst s, r1) else (fst s, r1))"

definition walkContainer :: "env \<Rightarrow> elem \<Rightarrow> state \<Rightarrow> bool \<times> state" where
  "walkContainer env h s =
     (if el_path h \<in> set (rootSet env) then (False, s)
      else if \<not> shellMode (fst s) then
        (case extractInlineText env (el_node h) (snd s) of
           (inlineText, r1) \<Rightarrow>
             if inlineText \<noteq> [] \<and> \<not> hasBlockChildren (envConfig env) (el_node h) \<and>
                leqNum (ofNat (length inlineText)) (lineLimit (envConfig env)) \<and>
                length (children (el_node h)) \<le> 3
             then (True, emit (envConfig env) inlineText None (fst s, r1))
             else (False, (fst s, r1)))
      else (False, s))"

definition walkInlineControl :: "env \<Rightarrow> node \<Rightarrow> nat \<Rightarrow> state \<Rightarrow> state" where
  "walkInlineControl env el listDepth s =
     (case extractInlineText env el (snd s) of
        (text, r1) \<Rightarrow>
          (case getLinkRef (envConfig env) el r1 of
             (linkRef, r2) \<Rightarrow>
               if text \<noteq> [] then
                 emit (envConfig env) (indent listDepth @ js ''- '' @ text) linkRef (fst s, r2)
               else (fst s, r2)))"

definition walkLeaf :: "env \<Rightarrow> node \<Rightarrow> state \<Rightarrow> bool \<times> state" where
  "walkLeaf env el s =
     (if children el = [] then
        (let text = cleanText (textContent el) in
         if text \<noteq> [] then
           (case getLinkRef (envConfig env) el (snd s) of
              (linkRef, r1) \<Rightarrow> (True, emit (envConfig env) text linkRef (fst s, r1)))
         else (False, s))
      else (False, s))"

definition walkPlain :: "env \<Rightarrow> elem \<Rightarrow> nat \<Rightarrow> state \<Rightarrow> bool \<times> state" where
  "walkPlain env h listDepth s =
     (let el = el_node h; tag = tagOf (envConfig env) el in
      case walkFilterGroup env h listDepth s of
        (True, s1) \<Rightarrow> (True, s1)
      | (False, s1) \<Rightarrow>
          if shouldSummarizeCard env h then (True, walkCard env h listDepth s1)
          else if tag \<in> set BLOCK_TEXT_TAGS then (True, walkBlockText env el s1)
          else
            (case (if tag \<in> set CONTAINER_TAGS then walkContainer env h s1 else (False, s1)) of
               (True, s2) \<Rightarrow> (True, s2)
             | (False, s2) \<Rightarrow>
                 if (tag = js ''button'' \<or> tag = js ''a'') \<and> isStandaloneInline (envConfig env) h
                 then (True, walkInlineControl env el listDepth s2)
                 else walkLeaf env el s2))"

text \<open>The text of the line that stands for the items of a list beyond the limit (line 616).\<close>

definition moreLine :: "nat \<Rightarrow> number \<Rightarrow> jstring" where
  "moreLine listDepth remaining =
     indent listDepth @ js ''- '' @ [ellipsis] @ js '' ('' @ numberToString remaining @ js '' more)''"

definition listItems :: "config \<Rightarrow> elem \<Rightarrow> elem list" where
  "listItems cfg h = filter (\<lambda>child. tagOf cfg (el_node child) = js ''li'') (childElems h)"

text \<open>
  \<^verbatim>\<open>Math.min(items.length, maxListItems)\<close> (line 609), and the items that the loop
  \<^verbatim>\<open>for (let i = 0; i < limit; i++)\<close> of line 610 reaches: \<open>itemsBelow limit i xs\<close> are the
  items from index \<open>i\<close> on, \<open>xs\<close> being the items not yet visited.
\<close>

definition listLimit :: "config \<Rightarrow> nat \<Rightarrow> number" where
  "listLimit cfg n = mathMin (ofNat n) (maxListItems cfg)"

fun itemsBelow :: "number \<Rightarrow> nat \<Rightarrow> 'a list \<Rightarrow> 'a list" where
  "itemsBelow limit i [] = []"
| "itemsBelow limit i (x # xs) =
     (if lessNum (ofNat i) limit then x # itemsBelow limit (Suc i) xs else [])"

definition nestedLists :: "config \<Rightarrow> elem \<Rightarrow> elem list" where
  "nestedLists cfg h =
     filter (\<lambda>child. tagOf cfg (el_node child) = js ''ul'' \<or> tagOf cfg (el_node child) = js ''ol'')
       (childElems h)"

text \<open>
  The size of a node (the number of nodes in its tree) and of a list of elements: every
  call of \<^verbatim>\<open>walk\<close> from \<^verbatim>\<open>walk\<close> is for a child of the element.
\<close>

fun nodeSize :: "node \<Rightarrow> nat"
  and nodesSize :: "node list \<Rightarrow> nat" where
  "nodeSize (Element t a p cs) = Suc (nodesSize cs)"
| "nodeSize (TextNode s) = 1"
| "nodeSize OtherNode = 1"
| "nodesSize [] = 0"
| "nodesSize (c # cs) = nodeSize c + nodesSize cs"

definition elemsSize :: "elem list \<Rightarrow> nat" where
  "elemsSize xs = sum_list (map (\<lambda>x. nodeSize (el_node x)) xs)"

text \<open>
  \<^verbatim>\<open>walk\<close> (lines 620-763) with the loops that call it. \<open>walkAll\<close> is a loop
  \<^verbatim>\<open>for (x of xs) walk(x, depth, listDepth)\<close>; with \<open>stop\<close> set, the loop is left as soon as
  \<^verbatim>\<open>truncated\<close> is set (\<^verbatim>\<open>if (truncated) return\<close>). The case of a list is the body of
  \<^verbatim>\<open>handleList\<close> (lines 605-618). The recursion ends because every call of \<^verbatim>\<open>walk\<close> from
  \<^verbatim>\<open>walk\<close> is for a child of the element (\<^verbatim>\<open>maxDepth\<close> may be \<^verbatim>\<open>Infinity\<close> or \<^verbatim>\<open>NaN\<close>, and then
  \<^verbatim>\<open>depth > maxDepth\<close> never holds).
\<close>

function walk :: "env \<Rightarrow> elem \<Rightarrow> nat \<Rightarrow> nat \<Rightarrow> state \<Rightarrow> state"
  and walkAll :: "env \<Rightarrow> bool \<Rightarrow> elem list \<Rightarrow> nat \<Rightarrow> nat \<Rightarrow> state \<Rightarrow> state" where
  "walk env h depth listDepth s =
     (if truncated (fst s) then s
      else if greaterNum (ofNat depth) (maxDepth (envConfig env)) then s
      else if tagOf (envConfig env) (el_node h) \<in> set SKIP_TAGS then s
      else if shouldSkip env (walkMode (fst s)) h then s
      else if isHidden env (el_node h) then (emitHiddenHeading (envConfig env) (el_node h) (fst s), snd s)
      else if tagOf (envConfig env) (el_node h) = js ''ul'' \<or>
              tagOf (envConfig env) (el_node h) = js ''ol'' then
        (let s1 = walkAll env True
                    (itemsBelow (listLimit (envConfig env) (length (listItems (envConfig env) h))) 0
                       (listItems (envConfig env) h))
                    (depth + 1) (listDepth + 1) s
         in if truncated (fst s1) then s1
            else if greaterNum (ofNat (length (listItems (envConfig env) h)))
                      (listLimit (envConfig env) (length (listItems (envConfig env) h))) then
              emit (envConfig env)
                (moreLine listDepth
                   (numSub (ofNat (length (listItems (envConfig env) h)))
                      (listLimit (envConfig env) (length (listItems (envConfig env) h)))))
                None s1
            else s1)
      else if tagOf (envConfig env) (el_node h) \<in> set HEADING_TAGS \<or>
              tagOf (envConfig env) (el_node h) \<in> set HEADING_LIKE_TAGS \<or>
              getAttribute (el_node h) (js ''role'') = Some (js ''heading'')
        then walkHeading env (el_node h) s
      else if tagOf (envConfig env) (el_node h) = js ''blockquote'' then walkBlockquote env (el_node h) s
      else if tagOf (envConfig env) (el_node h) = js ''figure'' then walkFigure env (el_node h) s
      else if tagOf (envConfig env) (el_node h) = js ''img'' then walkImg env (el_node h) s
      else if tagOf (envConfig env) (el_node h) = js ''video'' then walkVideo env (el_node h) s
      else if tagOf (envConfig env) (el_node h) = js ''li'' then
        walkAll env False (nestedLists (envConfig env) h) (depth + 1) (listDepth + 1)
          (walkListItemLine env (el_node h) listDepth s)
      else
        (case walkPlain env h listDepth s of
           (True, s1) \<Rightarrow> s1
         | (False, s1) \<Rightarrow> walkAll env True (childElems h) (depth + 1) listDepth s1))"
| "walkAll env stop [] depth listDepth s = s"
| "walkAll env stop (x # xs) depth listDepth s =
     (let s1 = walk env x depth listDepth s in
      if stop \<and> truncated (fst s1) then s1 else walkAll env stop xs depth listDepth s1)"
  by pat_completeness auto
termination
proof (relation "measures
        [\<lambda>x. case x of
                Inl (env, h, depth, listDepth, s) \<Rightarrow> nodeSize (el_node h)
              | Inr (env, stop, xs, depth, listDepth, s) \<Rightarrow> elemsSize xs,
         \<lambda>x. case x of
                Inl (env, h, depth, listDepth, s) \<Rightarrow> 0
              | Inr (env, stop, xs, depth, listDepth, s) \<Rightarrow> Suc (length xs)]", goal_cases)
  have from_nodes: "elemsSize (childElemsFrom cs path parents i prev) \<le> nodesSize cs"
    for cs path parents i prev
  proof (induction cs arbitrary: i prev)
    case Nil
    show ?case by (simp add: elemsSize_def)
  next
    case (Cons c cs)
    show ?case
    proof (cases "isElement c")
      case True
      then show ?thesis using Cons.IH [of "Suc i" "Some c"] by (simp add: elemsSize_def)
    next
      case False
      then show ?thesis using Cons.IH [of "Suc i" prev] by (simp add: elemsSize_def)
    qed
  qed
  have children_smaller: "elemsSize (childElems h) < nodeSize (el_node h)" for h
  proof (cases "el_node h")
    case (Element t a p cs)
    then show ?thesis
      using from_nodes [of cs "el_path h" "shallow (el_node h) # el_parents h" 0 None]
      by (simp add: childElems_def childNodes_def)
  qed (simp_all add: childElems_def childNodes_def elemsSize_def)
  have filtered: "elemsSize (filter P xs) \<le> elemsSize xs" for P and xs :: "elem list"
    by (induction xs) (auto simp: elemsSize_def)
  have below: "elemsSize (itemsBelow limit i xs) \<le> elemsSize xs" for limit i and xs :: "elem list"
    by (induction xs arbitrary: i) (auto simp: elemsSize_def)
  have positive: "0 < nodeSize n" for n
    by (cases n) simp_all
  {
    case 1
    show ?case by simp
  next
    case (2 env h depth listDepth s)
    have "elemsSize (itemsBelow (listLimit (envConfig env) (length (listItems (envConfig env) h))) 0
                       (listItems (envConfig env) h)) \<le> elemsSize (childElems h)"
      using below filtered le_trans unfolding listItems_def by blast
    then show ?case using children_smaller [of h] by simp
  next
    case (3 env h depth listDepth s)
    have "elemsSize (nestedLists (envConfig env) h) \<le> elemsSize (childElems h)"
      unfolding nestedLists_def by (rule filtered)
    then show ?case using children_smaller [of h] by simp
  next
    case (4 env h depth listDepth s x1 x2)
    show ?case using children_smaller [of h] by simp
  next
    case (5 env stop x xs depth listDepth s)
    show ?case by (auto simp: elemsSize_def)
  next
    case (6 env stop x xs depth listDepth s x1)
    show ?case using positive [of "el_node x"] by (simp add: elemsSize_def)
  }
qed

declare walk.simps(1) [simp del]

text \<open>\<^verbatim>\<open>handleList\<close> (lines 605-618).\<close>

definition handleList :: "env \<Rightarrow> elem \<Rightarrow> nat \<Rightarrow> nat \<Rightarrow> state \<Rightarrow> state" where
  "handleList env h depth listDepth s =
     (let its = listItems (envConfig env) h;
          limit = listLimit (envConfig env) (length its);
          s1 = walkAll env True (itemsBelow limit 0 its) (depth + 1) (listDepth + 1) s
      in if truncated (fst s1) then s1
         else if greaterNum (ofNat (length its)) limit then
           emit (envConfig env) (moreLine listDepth (numSub (ofNat (length its)) limit)) None s1
         else s1)"

section \<open>Root selector\<close>

text \<open>
  The host of the call: the document (\<open>None\<close> when \<^verbatim>\<open>globalThis.document\<close> is missing), given
  by its document element; whether there is a window with \<^verbatim>\<open>getComputedStyle\<close>; and the
  host's selector engine for the selector of the options, which is any CSS selector:
  \<open>hostMatches sel\<close> is \<open>None\<close> when the engine rejects the selector (the exception leaves
  the call), and otherwise says which elements of the document match, each named by its
  path; and \<^verbatim>\<open>String.prototype.toLowerCase\<close> of the engine.
\<close>

datatype error = InvalidSelector

record host =
  hostDocument :: "node option"
  hostWindow :: bool
  hostMatches :: "jstring \<Rightarrow> (nat list \<Rightarrow> bool) option"
  hostLowerCase :: "jstring \<Rightarrow> jstring"

text \<open>All elements of the document, in document order: \<^verbatim>\<open>doc.querySelectorAll('*')\<close>.\<close>

definition documentElems :: "node \<Rightarrow> elem list" where
  "documentElems doc =
     (if isElement doc then
        \<lparr> el_node = doc, el_path = [], el_parents = [], el_prev = None \<rparr> # descendantElems doc [] []
      else [])"

definition documentQuery :: "node \<Rightarrow> selector \<Rightarrow> elem list" where
  "documentQuery doc sel = filter (\<lambda>h. matchesSelector sel (el_node h)) (documentElems doc)"

text \<open>\<^verbatim>\<open>doc.body\<close>: the child \<^verbatim>\<open>body\<close> of the document element.\<close>

definition documentBody :: "node \<Rightarrow> elem option" where
  "documentBody doc =
     find (\<lambda>h. localName (el_node h) = js ''body'')
       (childElems \<lparr> el_node = doc, el_path = [], el_parents = [], el_prev = None \<rparr>)"

text \<open>Lines 64-80: the article with the best score among those that qualify.\<close>

definition articleScore :: "node \<Rightarrow> bool \<times> int" where
  "articleScore article =
     (let paragraphs = querySelectorAll article (tags [''p'']);
          pLen = length (joinWith (js '' '') (map (\<lambda>p. trim (innerText (propsOf p))) paragraphs));
          pCount = length paragraphs;
          linkCount = length (querySelectorAll article (tags [''a'']))
      in (400 \<le> pLen \<or> 3 \<le> pCount, int pLen + int pCount * 200 - int linkCount * 20))"

definition bestArticle :: "elem list \<Rightarrow> elem option" where
  "bestArticle articles =
     fst (foldl (\<lambda>(best, bestScore) article.
                   if fst (articleScore (el_node article)) \<and> bestScore < snd (articleScore (el_node article))
                   then (Some article, snd (articleScore (el_node article)))
                   else (best, bestScore))
            (None, - 1) articles)"

text \<open>Lines 85-95: \<^verbatim>\<open>main\<close> or the body, the one with more rendered text.\<close>

definition bestCandidate :: "elem list \<Rightarrow> elem option" where
  "bestCandidate candidates =
     fst (foldl (\<lambda>(best, bestScore) candidate.
                   if bestScore < int (length (trim (innerText (propsOf (el_node candidate)))))
                   then (Some candidate, int (length (trim (innerText (propsOf (el_node candidate))))))
                   else (best, bestScore))
            (case candidates of [] \<Rightarrow> None | c # _ \<Rightarrow> Some c, - 1) candidates)"

definition optionToList :: "'a option \<Rightarrow> 'a list" where
  "optionToList x = (case x of None \<Rightarrow> [] | Some v \<Rightarrow> [v])"

text \<open>
  Lines 53-115: the roots, the shell roots and the configuration with the line length that
  the choice of an article may have raised (line 82).
\<close>

definition selectedRoots :: "host \<Rightarrow> config \<Rightarrow> node \<Rightarrow> error + elem list" where
  "selectedRoots hst cfg doc =
     (if preferredSelector cfg \<noteq> [] then
        (case hostMatches hst (preferredSelector cfg) of
           None \<Rightarrow> Inl InvalidSelector
         | Some matching \<Rightarrow> Inr (filter (\<lambda>h. matching (el_path h)) (documentElems doc)))
      else Inr [])"

definition widenForArticle :: "config \<Rightarrow> config" where
  "widenForArticle cfg =
     (if numIsFinite (maxLineLength cfg) \<and> lessNum (maxLineLength cfg) (Num 360)
      then cfg\<lparr>maxLineLength := Num 360\<rparr> else cfg)"

definition selectRoots :: "host \<Rightarrow> config \<Rightarrow> error + (elem list \<times> elem list \<times> config)" where
  "selectRoots hst cfg =
     (case hostDocument hst of
        None \<Rightarrow> Inr ([], [], cfg)
      | Some doc \<Rightarrow>
          (case selectedRoots hst cfg doc of
             Inl err \<Rightarrow> Inl err
           | Inr selected \<Rightarrow>
               (let (roots, cfg1) =
                      (if selected \<noteq> [] then (selected, cfg)
                       else
                         (case bestArticle (documentQuery doc (tags [''article''])) of
                            Some article \<Rightarrow> ([article], widenForArticle cfg)
                          | None \<Rightarrow>
                              (optionToList
                                 (bestCandidate
                                    (optionToList (find (\<lambda>h. True) (documentQuery doc (tags [''main'']))) @
                                     optionToList (documentBody doc))),
                               cfg)));
                    shellRoots =
                      (if includeShell cfg then
                         documentQuery doc
                           [[ByTag (js ''header'')], [ByTag (js ''nav'')], [ByTag (js ''aside'')],
                            [ByAttr (js ''role'') (js ''navigation'')]]
                       else [])
                in Inr (roots,
                        filter (\<lambda>n. \<not> list_ex (\<lambda>rt. containsElem rt n) roots) shellRoots,
                        cfg1))))"

section \<open>Passes and result\<close>

text \<open>\<^verbatim>\<open>withShellMode\<close> (lines 424-435).\<close>

definition withShellMode :: "int \<Rightarrow> (state \<Rightarrow> state) \<Rightarrow> state \<Rightarrow> state" where
  "withShellMode limit fn s =
     (let s1 = fn ((fst s)\<lparr>shellMode := True, shellRemaining := limit, walkMode := ShellWalk\<rparr>, snd s)
      in ((fst s1)\<lparr>shellMode := shellMode (fst s), shellRemaining := shellRemaining (fst s),
                   walkMode := walkMode (fst s)\<rparr>,
          snd s1))"

text \<open>Lines 765-772: the shell pass.\<close>

fun walkShellRoots :: "env \<Rightarrow> elem list \<Rightarrow> state \<Rightarrow> state" where
  "walkShellRoots env [] s = s"
| "walkShellRoots env (rt # rts) s =
     (if truncated (fst s) then s else walkShellRoots env rts (walk env rt 0 0 s))"

definition shellPass :: "env \<Rightarrow> elem list \<Rightarrow> state \<Rightarrow> state" where
  "shellPass env shellRoots s =
     (if includeShell (envConfig env) \<and> shellRoots \<noteq> [] then
        withShellMode 60 (walkShellRoots env shellRoots) s
      else s)"

text \<open>Lines 774-777: the main pass.\<close>

definition mainPass :: "env \<Rightarrow> elem list \<Rightarrow> state \<Rightarrow> state" where
  "mainPass env roots s = walkAll env False roots 0 0 ((fst s)\<lparr>walkMode := MainWalk\<rparr>, snd s)"

text \<open>Lines 779-787: every anchor with an \<^verbatim>\<open>href\<close> below a root is registered.\<close>

fun registerAnchors :: "node list \<Rightarrow> registry \<Rightarrow> registry" where
  "registerAnchors [] r = r"
| "registerAnchors (anchor # anchors) r =
     registerAnchors anchors
       (if anchorHref anchor \<noteq> [] then snd (registerLink (anchorHref anchor) r) else r)"

definition rootAnchors :: "elem list \<Rightarrow> node list" where
  "rootAnchors roots = concat (map (\<lambda>rt. querySelectorAll (el_node rt) selAnchorWithHref) roots)"

definition sweepLinks :: "config \<Rightarrow> elem list \<Rightarrow> registry \<Rightarrow> registry" where
  "sweepLinks cfg roots r =
     (if linksEnabled cfg \<and> roots \<noteq> [] then registerAnchors (rootAnchors roots) r else r)"

text \<open>
  Lines 788-800: the anchors below the shell roots, until 60 links are registered beyond
  those that were there.
\<close>

fun registerShellAnchors :: "nat \<Rightarrow> node list \<Rightarrow> registry \<Rightarrow> registry" where
  "registerShellAnchors baseCount [] r = r"
| "registerShellAnchors baseCount (anchor # anchors) r =
     (if 60 \<le> length (linkList r) - baseCount then r
      else registerShellAnchors baseCount anchors
             (if anchorHref anchor \<noteq> [] then snd (registerLink (anchorHref anchor) r) else r))"

fun sweepShellRoots :: "nat \<Rightarrow> elem list \<Rightarrow> registry \<Rightarrow> registry" where
  "sweepShellRoots baseCount [] r = r"
| "sweepShellRoots baseCount (rt # rts) r =
     (let r1 = registerShellAnchors baseCount (querySelectorAll (el_node rt) selAnchorWithHref) r in
      if 60 \<le> length (linkList r1) - baseCount then r1 else sweepShellRoots baseCount rts r1)"

definition sweepShellLinks :: "config \<Rightarrow> elem list \<Rightarrow> registry \<Rightarrow> registry" where
  "sweepShellLinks cfg shellRoots r =
     (if linksEnabled cfg \<and> includeShell cfg \<and> shellRoots \<noteq> [] then
        sweepShellRoots (length (linkList r)) shellRoots r
      else r)"

text \<open>Lines 802-861: the fallback pass.\<close>

definition addNodeLine :: "env \<Rightarrow> node \<Rightarrow> state \<Rightarrow> state" where
  "addNodeLine env n s =
     (let cfg = envConfig env; tag = tagOf cfg n in
      if tag = js ''blockquote'' then
        (case extractInlineText env n (snd s) of
           (text, r1) \<Rightarrow> if text \<noteq> [] then emit cfg (js ''> '' @ text) None (fst s, r1) else (fst s, r1))
      else if tag = js ''li'' then
        (case extractInlineText env n (snd s) of
           (text, r1) \<Rightarrow> if text \<noteq> [] then emit cfg (js ''- '' @ text) None (fst s, r1) else (fst s, r1))
      else if tag = js ''p'' then
        (case extractInlineText env n (snd s) of
           (text, r1) \<Rightarrow> if text \<noteq> [] then emit cfg text None (fst s, r1) else (fst s, r1))
      else if tag = js ''figcaption'' then
        (case extractInlineText env n (snd s) of
           (text, r1) \<Rightarrow> if text \<noteq> [] then emit cfg (js ''- '' @ text) None (fst s, r1) else (fst s, r1))
      else if tag \<in> set HEADING_TAGS then
        (case extractInlineText env n (snd s) of
           (text, r1) \<Rightarrow>
             if text \<noteq> [] then
               emit cfg
                 (hashes (mathMin (mathMax (getHeadingLevel n tag) (Num 2)) (Num 6)) @ js '' '' @ text)
                 None (fst s, r1)
             else (fst s, r1))
      else s)"

fun addNodeLines :: "env \<Rightarrow> node list \<Rightarrow> state \<Rightarrow> state" where
  "addNodeLines env [] s = s"
| "addNodeLines env (n # ns) s =
     (let s1 = addNodeLine env n s in
      if truncated (fst s1) then s1 else addNodeLines env ns s1)"

fun addSegments :: "config \<Rightarrow> jstring list \<Rightarrow> state \<Rightarrow> state" where
  "addSegments cfg [] s = s"
| "addSegments cfg (segment # segments) s =
     addSegments cfg segments
       (if 4 \<le> length (splitSpaces segment) then emit cfg segment None s else s)"

definition fallbackRoot :: "env \<Rightarrow> elem \<Rightarrow> state \<Rightarrow> state" where
  "fallbackRoot env rt s =
     (let s1 = addNodeLines env
                 (querySelectorAll (el_node rt)
                    (tags [''h2'', ''h3'', ''h4'', ''p'', ''blockquote'', ''figcaption'', ''li'']))
                 s
      in if \<not> truncated (fst s1) \<and> length (lines (fst s1)) < 8 then
           addSegments (envConfig env)
             (filter (\<lambda>seg. seg \<noteq> [])
                (map cleanText (splitNewlines (innerText (propsOf (el_node rt))))))
             s1
         else s1)"

definition fallbackPass :: "env \<Rightarrow> elem list \<Rightarrow> state \<Rightarrow> state" where
  "fallbackPass env roots s =
     (let totalChars = sum_list (map length (lines (fst s))) in
      if roots \<noteq> [] \<and> (length (lines (fst s)) < 8 \<or> totalChars < 400) then
        foldl (\<lambda>st rt. fallbackRoot env rt st) s roots
      else s)"

text \<open>Lines 863-869: the link table.\<close>

fun addLinkLines :: "config \<Rightarrow> (jstring \<times> jstring) list \<Rightarrow> emitter \<Rightarrow> emitter" where
  "addLinkLines cfg [] e = e"
| "addLinkLines cfg (link # rest) e =
     (let e1 = addLine cfg (js ''@'' @ fst link @ js '' '' @ snd link) None e in
      if truncated e1 then e1 else addLinkLines cfg rest e1)"

definition linkTable :: "config \<Rightarrow> state \<Rightarrow> state" where
  "linkTable cfg s =
     (if linksEnabled cfg \<and> linkList (snd s) \<noteq> [] \<and> \<not> truncated (fst s) then
        (addLinkLines cfg (linkList (snd s)) (addLine cfg (js ''### Links'') None (fst s)), snd s)
      else s)"

text \<open>\<^verbatim>\<open>ReadableResult\<close> (lines 17-26) and its assembly (lines 871-880).\<close>

record stats =
  stats_lines :: nat
  stats_maxDepth :: number
  stats_items :: nat

record readableResult =
  res_text :: jstring
  res_truncated :: bool
  res_stats :: stats
  res_links :: "(jstring \<times> jstring) list"

definition assemble :: "config \<Rightarrow> state \<Rightarrow> readableResult" where
  "assemble cfg s =
     \<lparr> res_text = joinWith [newline] (lines (fst s)),
       res_truncated = truncated (fst s),
       res_stats = \<lparr> stats_lines = length (lines (fst s)), stats_maxDepth = maxDepth cfg,
                     stats_items = itemCount (fst s) \<rparr>,
       res_links = linkList (snd s) \<rparr>"

text \<open>
  The state at the end of the call, from the roots on (lines 108-869), the result for
  the chosen roots, and the call (lines 28-884).
\<close>

definition mkEnv :: "host \<Rightarrow> config \<Rightarrow> elem list \<Rightarrow> elem list \<Rightarrow> env" where
  "mkEnv hst cfg roots shellRoots =
     \<lparr> envConfig = cfg, envWindow = hostWindow hst, rootSet = map el_path roots,
       shellRootSet = map el_path shellRoots \<rparr>"

definition walked :: "env \<Rightarrow> elem list \<Rightarrow> elem list \<Rightarrow> state" where
  "walked env roots shellRoots = mainPass env roots (shellPass env shellRoots (initEmitter, initRegistry))"

definition swept :: "env \<Rightarrow> elem list \<Rightarrow> elem list \<Rightarrow> state" where
  "swept env roots shellRoots =
     (let s = walked env roots shellRoots in
      (fst s, sweepShellLinks (envConfig env) shellRoots (sweepLinks (envConfig env) roots (snd s))))"

definition runPasses :: "env \<Rightarrow> elem list \<Rightarrow> elem list \<Rightarrow> state" where
  "runPasses env roots shellRoots =
     linkTable (envConfig env) (fallbackPass env roots (swept env roots shellRoots))"

fun readFrom :: "host \<Rightarrow> elem list \<times> elem list \<times> config \<Rightarrow> readableResult" where
  "readFrom hst (roots, shellRoots, cfg) =
     assemble cfg (runPasses (mkEnv hst cfg roots shellRoots) roots shellRoots)"

definition getReadableText :: "host \<Rightarrow> options \<Rightarrow> error + readableResult" where
  "getReadableText hst opts =
     (case selectRoots hst (resolveConfig (hostLowerCase hst) opts) of
        Inl err \<Rightarrow> Inl err
      | Inr chosen \<Rightarrow> Inr (readFrom hst chosen))"

section \<open>Notions for the properties\<close>

text \<open>
  The cleaned text of a candidate line (line 236) and the line that \<^verbatim>\<open>addLine\<close> appends
  for it (line 245).
\<close>

definition cleanedLine :: "jstring \<Rightarrow> jstring" where
  "cleanedLine line = normalizeBullets (cleanText line)"

definition shownLine :: "config \<Rightarrow> jstring \<Rightarrow> jstring option \<Rightarrow> jstring" where
  "shownLine cfg line linkRef = trimLine cfg (decorateLine (cleanedLine line) linkRef)"

text \<open>
  The states that the call can reach from a state: the emitter changes through
  \<^verbatim>\<open>addLine\<close> and through the assignments of the mode switch, the registry through
  \<^verbatim>\<open>registerLink\<close>, and nothing else changes them.
\<close>

inductive reaches :: "config \<Rightarrow> state \<Rightarrow> state \<Rightarrow> bool" for cfg :: config and s :: state where
  here: "reaches cfg s s"
| added: "reaches cfg s s1 \<Longrightarrow> reaches cfg s (addLine cfg line linkRef (fst s1), snd s1)"
| registered: "reaches cfg s s1 \<Longrightarrow> reaches cfg s (fst s1, snd (registerLink href (snd s1)))"
| switched:
    "reaches cfg s s1 \<Longrightarrow>
     reaches cfg s ((fst s1)\<lparr>shellMode := a, shellRemaining := b, walkMode := c\<rparr>, snd s1)"

text \<open>The registry after a sequence of calls of \<^verbatim>\<open>registerLink\<close>, from the empty one.\<close>

definition registerAll :: "jstring list \<Rightarrow> registry \<Rightarrow> registry" where
  "registerAll hrefs r = foldl (\<lambda>r1 href. snd (registerLink href r1)) r hrefs"

text \<open>The reference ids \<^verbatim>\<open>L1\<close>, ..., \<^verbatim>\<open>Ln\<close>.\<close>

definition refIds :: "nat \<Rightarrow> jstring list" where
  "refIds n = map (\<lambda>k. js ''L'' @ numToString (Suc k)) [0..<n]"

text \<open>
  A registry as the calls of \<^verbatim>\<open>registerLink\<close> leave it: the counter is the length of the
  list, the list holds the ids \<^verbatim>\<open>L1\<close>, ..., \<^verbatim>\<open>Ln\<close> in this order with distinct URLs, and the
  map is the list read from the URL to the id.
\<close>

definition registryOk :: "registry \<Rightarrow> bool" where
  "registryOk r =
     (linkCounter r = length (linkList r) \<and>
      map fst (linkList r) = refIds (length (linkList r)) \<and>
      distinct (map snd (linkList r)) \<and>
      linkMap r = map_of (map (\<lambda>entry. (snd entry, fst entry)) (linkList r)))"

text \<open>The lines of a text: \<^verbatim>\<open>text.split('\n')\<close>.\<close>

fun splitLines :: "jstring \<Rightarrow> jstring list" where
  "splitLines [] = [[]]"
| "splitLines (c # cs) =
     (if c = newline then [] # splitLines cs
      else (case splitLines cs of [] \<Rightarrow> [[c]] | l # ls \<Rightarrow> (c # l) # ls))"

definition resultLines :: "error + readableResult \<Rightarrow> jstring list" where
  "resultLines res = (case res of Inl _ \<Rightarrow> [] | Inr r \<Rightarrow> splitLines (res_text r))"

text \<open>The line length in force when the lines are emitted: the one left by the choice of the roots.\<close>

definition lineLengthInForce :: "host \<Rightarrow> options \<Rightarrow> number" where
  "lineLengthInForce hst opts =
     (case selectRoots hst (resolveConfig (hostLowerCase hst) opts) of
        Inl _ \<Rightarrow> maxLineLength (resolveConfig (hostLowerCase hst) opts)
      | Inr chosen \<Rightarrow> maxLineLength (snd (snd chosen)))"

text \<open>The roots chosen for a call (none when the call fails or there is no document).\<close>

definition mainRoots :: "host \<Rightarrow> options \<Rightarrow> elem list" where
  "mainRoots hst opts =
     (case selectRoots hst (resolveConfig (hostLowerCase hst) opts) of
        Inl _ \<Rightarrow> []
      | Inr chosen \<Rightarrow> fst chosen)"

text \<open>The emitter after a sequence of candidate lines, none with a link.\<close>

definition addLines :: "config \<Rightarrow> jstring list \<Rightarrow> emitter \<Rightarrow> emitter" where
  "addLines cfg candidates e = foldl (\<lambda>e1 line. addLine cfg line None e1) e candidates"

section \<open>Example documents\<close>

text \<open>
  Small documents and options on which the properties are checked. \<open>noProps\<close> are the
  host properties of an element with no rendered text, no style that hides it, no
  source and no class; \<open>hostOf doc\<close> is a host with the document \<open>doc\<close>, a window, an engine
  that rejects every selector (no example passes one), and \<open>lowerAscii\<close> for
  \<^verbatim>\<open>toLowerCase\<close> (the texts of the examples hold no capital letter outside ASCII, and
  on such texts this is what \<^verbatim>\<open>toLowerCase\<close> does). \<open>plainConfig\<close> is the configuration of a
  call without options on such a host.
\<close>

definition noProps :: hostProps where
  "noProps = \<lparr> innerText = [], styleDisplay = [], styleVisibility = [], currentSrc = [],
               srcProp = [], hrefProp = [], classNameProp = [] \<rparr>"

definition noOptions :: options where
  "noOptions = \<lparr> opt_selector = None, opt_maxDepth = None, opt_maxItems = None,
                 opt_maxListItems = None, opt_maxLineLength = None, opt_filterMode = None,
                 opt_links = None, opt_dedupe = None, opt_dedupeWindow = None,
                 opt_includeFooter = None, opt_includeShell = None \<rparr>"

definition hostOf :: "node \<Rightarrow> host" where
  "hostOf doc = \<lparr> hostDocument = Some doc, hostWindow = True, hostMatches = (\<lambda>sel. None),
                  hostLowerCase = lowerAscii \<rparr>"

definition plainConfig :: config where
  "plainConfig = resolveConfig lowerAscii noOptions"

definition tagged :: "string \<Rightarrow> (jstring \<times> jstring) list \<Rightarrow> node list \<Rightarrow> node" where
  "tagged t attrs kids = Element (js t) attrs noProps kids"

definition textOf :: "string \<Rightarrow> jstring \<Rightarrow> node" where
  "textOf t s = tagged t [] [TextNode s]"

definition page :: "node list \<Rightarrow> node" where
  "page kids = tagged ''HTML'' [] [tagged ''BODY'' [] kids]"

text \<open>Two paragraphs and a link, read with \<^verbatim>\<open>maxItems = 1\<close>.\<close>

definition budgetDoc :: node where
  "budgetDoc =
     page [textOf ''P'' (js ''one''), textOf ''P'' (js ''two''),
           tagged ''A'' [(js ''href'', js ''https://x/'')] [TextNode (js ''more'')]]"

definition budgetOptions :: options where
  "budgetOptions = noOptions\<lparr>opt_maxItems := Some (Num 1)\<rparr>"

text \<open>Three anchors, two of them with the same URL (one written with spaces around it).\<close>

definition linksDoc :: node where
  "linksDoc =
     page [tagged ''A'' [(js ''href'', js ''https://a/'')] [TextNode (js ''first'')],
           tagged ''A'' [(js ''href'', js ''https://b/'')] [TextNode (js ''second'')],
           tagged ''A'' [(js ''href'', js '' https://a/ '')] [TextNode (js ''again'')]]"

text \<open>Two leaf elements with the same text, with and without a hash in front.\<close>

definition hashDoc :: node where
  "hashDoc = page [textOf ''DIV'' (js ''#news''), textOf ''DIV'' (js ''#news'')]"

definition plainDoc :: node where
  "plainDoc = page [textOf ''DIV'' (js ''news''), textOf ''DIV'' (js ''news'')]"



definition windowOptions :: options where
  "windowOptions = noOptions\<lparr>opt_dedupeWindow := Some (Num 10)\<rparr>"


text \<open>The same document read with \<^verbatim>\<open>maxItems = 1.5\<close> and with \<^verbatim>\<open>maxItems = NaN\<close>.\<close>

definition halfOptions :: options where
  "halfOptions = noOptions\<lparr>opt_maxItems := Some (Num (3 / 2))\<rparr>"

definition nanOptions :: options where
  "nanOptions = noOptions\<lparr>opt_maxItems := Some NaN\<rparr>"




text \<open>
  Two equal headings, nine paragraphs, and twice a paragraph whose text is the heading
  line behind a bullet glyph; and nine short candidate lines.
\<close>

definition fillerText :: "string \<Rightarrow> jstring" where
  "fillerText k = js ''This paragraph is filler text with number '' @ js k"

definition fillers :: "jstring list" where
  "fillers = map fillerText [''one'', ''two'', ''three'', ''four'', ''five'', ''six'', ''seven'',
     ''eight'', ''nine'']"

definition shortLines :: "jstring list" where
  "shortLines = map js [''b'', ''c'', ''d'', ''e'', ''f'', ''g'', ''h'', ''i'', ''j'']"

definition dupDoc :: node where
  "dupDoc =
     page ([textOf ''H2'' (js ''A''), textOf ''H2'' (js ''A'')] @ map (textOf ''P'') fillers @
           [textOf ''P'' (middot # js '' ## A''), textOf ''P'' (middot # js '' ## A'')])"

section \<open>Properties\<close>

subsection \<open>No document\<close>

text \<open>
  Claim C8. When the host has no document, the call does not fail: it returns the result
  with the empty text, \<^verbatim>\<open>truncated = false\<close>, no line and no item counted, and an empty
  list of links, for every host and all options. (The field \<^verbatim>\<open>maxDepth\<close> of the stats is
  not a counter: it repeats the resolved option.)
\<close>

theorem no_document_degenerate_result:
  "getReadableText (hst\<lparr>hostDocument := None\<rparr>) opts =
     Inr \<lparr> res_text = [], res_truncated = False,
           res_stats = \<lparr> stats_lines = 0, stats_maxDepth = maxDepth (resolveConfig (hostLowerCase hst) opts),
                         stats_items = 0 \<rparr>,
           res_links = [] \<rparr>"
  by (simp add: getReadableText_def selectRoots_def runPasses_def swept_def walked_def
      shellPass_def mainPass_def sweepLinks_def sweepShellLinks_def fallbackPass_def
      linkTable_def assemble_def initEmitter_def initRegistry_def)

subsection \<open>Comparisons of counters with numbers\<close>

lemma geqNum_ofNat:
  "geqNum (ofNat n) (Num q) = (q \<le> of_nat n)"
  "geqNum (ofNat n) PosInfinity = False"
  "geqNum (ofNat n) NegInfinity = True"
  "geqNum x NaN = False"
  by (auto simp: geqNum_def leqNum_def ofNat_def)


lemma leqNum_ofNat:
  "leqNum (ofNat n) (Num q) = (of_nat n \<le> q)"
  "leqNum (ofNat n) PosInfinity = True"
  "leqNum (ofNat n) NegInfinity = False"
  "leqNum x NaN = False"
  by (auto simp: leqNum_def ofNat_def)

lemma geqNum_Suc: "geqNum (ofNat n) m \<Longrightarrow> geqNum (ofNat (Suc n)) m"
  by (cases m) (simp_all add: geqNum_ofNat)


subsection \<open>Every pass changes the state through addLine, registerLink and the mode switch only\<close>

lemma addLine_truncated: "truncated e \<Longrightarrow> addLine cfg line linkRef e = e"
  by (simp add: addLine_def)

lemma addLine_cases:
  "addLine cfg line linkRef e = e \<or>
   (addLine cfg line linkRef e = e\<lparr>truncated := True\<rparr> \<and> \<not> truncated e \<and>
      geqNum (ofNat (itemCount e)) (maxItems cfg)) \<or>
   (lines (addLine cfg line linkRef e) = lines e @ [shownLine cfg line linkRef] \<and>
    itemCount (addLine cfg line linkRef e) = Suc (itemCount e) \<and>
    \<not> truncated (addLine cfg line linkRef e) \<and> \<not> truncated e \<and>
    \<not> geqNum (ofNat (itemCount e)) (maxItems cfg))"
  by (auto simp: addLine_def pushFingerprint_def shownLine_def cleanedLine_def Let_def)

lemma reaches_trans: "reaches cfg s1 s2 \<Longrightarrow> reaches cfg s0 s1 \<Longrightarrow> reaches cfg s0 s2"
  by (induction rule: reaches.induct) (auto intro: reaches.intros)

lemma reaches_emit: "reaches cfg s (emit cfg line linkRef s)"
  unfolding emit_def by (rule reaches.added) (rule reaches.here)

lemma reaches_items:
  "reaches cfg s s' \<Longrightarrow> maxItems cfg = Num q \<Longrightarrow> int (itemCount (fst s)) \<le> \<lceil>q\<rceil> \<Longrightarrow>
   int (itemCount (fst s')) \<le> \<lceil>q\<rceil>"
proof (induction rule: reaches.induct)
  case (added s1 line linkRef)
  have below: "int (Suc n) \<le> \<lceil>q\<rceil>" if "\<not> q \<le> of_nat n" for n
  proof -
    have "of_int (int n) < q" using that by simp
    then have "int n < \<lceil>q\<rceil>" by (simp add: less_ceiling_iff)
    then show ?thesis by simp
  qed
  show ?case
    using addLine_cases [of cfg line linkRef "fst s1"] added below [of "itemCount (fst s1)"]
    by (auto simp: geqNum_ofNat)
qed auto

lemma reaches_frozen:
  "reaches cfg s s' \<Longrightarrow> truncated (fst s) \<Longrightarrow>
   lines (fst s') = lines (fst s) \<and> itemCount (fst s') = itemCount (fst s) \<and> truncated (fst s')"
  by (induction rule: reaches.induct) (auto simp: addLine_truncated)

lemma reaches_flag:
  "reaches cfg s s' \<Longrightarrow>
   (truncated (fst s) \<longrightarrow> geqNum (ofNat (itemCount (fst s))) (maxItems cfg)) \<Longrightarrow>
   truncated (fst s') \<longrightarrow> geqNum (ofNat (itemCount (fst s'))) (maxItems cfg)"
proof (induction rule: reaches.induct)
  case (added s1 line linkRef)
  then show ?case
    using addLine_cases [of cfg line linkRef "fst s1"] by auto
qed auto

lemma reaches_count:
  "reaches cfg s s' \<Longrightarrow> length (lines (fst s)) = itemCount (fst s) \<Longrightarrow>
   length (lines (fst s')) = itemCount (fst s')"
proof (induction rule: reaches.induct)
  case (added s1 line linkRef)
  then show ?case
    using addLine_cases [of cfg line linkRef "fst s1"] by auto
qed auto

lemma length_trimEnd: "length (trimEnd t) \<le> length t"
  by (simp add: trimEnd_def) (metis length_dropWhile_le length_rev)

lemma registerLink_grows:
  "linkList (snd (registerLink href r)) = linkList r \<or>
   linkList (snd (registerLink href r)) =
     linkList r @ [(js ''L'' @ numToString (Suc (linkCounter r)), trim href)]"
  by (simp add: registerLink_def Let_def split: option.splits)

lemma reaches_links_grow:
  "reaches cfg s s' \<Longrightarrow> \<exists>new. linkList (snd s') = linkList (snd s) @ new"
proof (induction rule: reaches.induct)
  case (registered s1 href)
  then obtain new where "linkList (snd s1) = linkList (snd s) @ new" by blast
  then show ?case
    using registerLink_grows [of href "snd s1"] by auto
qed simp_all

lemma refIds_Suc: "refIds (Suc n) = refIds n @ [js ''L'' @ numToString (Suc n)]"
  by (simp add: refIds_def)

lemma refIds_nonempty: "x \<in> set (refIds n) \<Longrightarrow> x \<noteq> []"
  by (auto simp: refIds_def js_def)

lemma registryOk_init: "registryOk initRegistry"
  by (simp add: registryOk_def initRegistry_def refIds_def)

lemma registryOk_lookup:
  assumes "registryOk r"
  shows "(linkMap r href = Some v) = ((v, href) \<in> set (linkList r))"
proof -
  let ?sw = "map (\<lambda>entry. (snd entry, fst entry)) (linkList r)"
  have d: "distinct (map fst ?sw)"
    using assms by (simp add: registryOk_def comp_def)
  have "(map_of ?sw href = Some v) = ((href, v) \<in> set ?sw)"
    by (rule map_of_eq_Some_iff [OF d])
  also have "\<dots> = ((v, href) \<in> set (linkList r))" by force
  finally show ?thesis using assms by (simp add: registryOk_def)
qed

lemma registryOk_ref_nonempty:
  assumes "registryOk r" "linkMap r href = Some v"
  shows "v \<noteq> []"
proof -
  have "(v, href) \<in> set (linkList r)" using assms registryOk_lookup by blast
  then have v: "v \<in> set (map fst (linkList r))" by force
  have e: "map fst (linkList r) = refIds (length (linkList r))"
    using assms(1) by (simp add: registryOk_def)
  from v have "v \<in> set (refIds (length (linkList r)))" unfolding e .
  then show ?thesis by (rule refIds_nonempty)
qed

lemma registerLink_found:
  assumes "registryOk r" "linkMap r (trim href) = Some v" "\<not> rejectedHref (trim href)"
  shows "registerLink href r = (Some (js ''@'' @ v), r)"
  using assms registryOk_ref_nonempty [OF assms(1,2)]
  by (simp add: registerLink_def Let_def)

lemma registerLink_rejected:
  "rejectedHref (trim href) \<Longrightarrow> registerLink href r = (None, r)"
  by (simp add: registerLink_def Let_def)

lemma registerLink_fresh:
  assumes "registryOk r" "linkMap r (trim href) = None" "\<not> rejectedHref (trim href)"
  shows "registerLink href r =
           (Some (js ''@'' @ js ''L'' @ numToString (Suc (linkCounter r))),
            r\<lparr>linkCounter := Suc (linkCounter r),
              linkMap := (linkMap r)(trim href \<mapsto> js ''L'' @ numToString (Suc (linkCounter r))),
              linkList := linkList r @ [(js ''L'' @ numToString (Suc (linkCounter r)), trim href)]\<rparr>)"
  using assms by (simp add: registerLink_def Let_def)

lemma registerLink_ok:
  assumes "registryOk r"
  shows "registryOk (snd (registerLink href r))"
proof (cases "rejectedHref (trim href)")
  case True
  then show ?thesis using assms by (simp add: registerLink_rejected)
next
  case False
  show ?thesis
  proof (cases "linkMap r (trim href)")
    case (Some v)
    then show ?thesis using assms False by (simp add: registerLink_found)
  next
    case None
    have notin: "trim href \<notin> snd ` set (linkList r)"
    proof
      assume "trim href \<in> snd ` set (linkList r)"
      then obtain v where "(v, trim href) \<in> set (linkList r)" by force
      then have "linkMap r (trim href) = Some v" using assms registryOk_lookup by blast
      with None show False by simp
    qed
    have lm: "linkMap r = map_of (map (\<lambda>entry. (snd entry, fst entry)) (linkList r))"
      using assms by (simp add: registryOk_def)
    have im: "fst ` set (map (\<lambda>entry. (snd entry, fst entry)) (linkList r)) = snd ` set (linkList r)"
      by force
    have nd: "map_of (map (\<lambda>entry. (snd entry, fst entry)) (linkList r)) (trim href) = None"
      using notin im by (simp add: map_of_eq_None_iff)
    have m: "(linkMap r)(trim href \<mapsto> js ''L'' @ numToString (Suc (length (linkList r)))) =
          map_of (map (\<lambda>entry. (snd entry, fst entry)) (linkList r)
                  @ [(trim href, js ''L'' @ numToString (Suc (length (linkList r))))])"
    proof (rule ext)
      fix x
      show "((linkMap r)(trim href \<mapsto> js ''L'' @ numToString (Suc (length (linkList r))))) x =
            map_of (map (\<lambda>entry. (snd entry, fst entry)) (linkList r)
                  @ [(trim href, js ''L'' @ numToString (Suc (length (linkList r))))]) x"
        using nd lm by (cases "x = trim href") (auto simp: map_add_def split: option.splits)
    qed
    show ?thesis
      using assms notin m
      by (simp add: registerLink_fresh [OF assms None False] registryOk_def refIds_Suc)
  qed
qed

lemma reaches_ok:
  "reaches cfg s s' \<Longrightarrow> registryOk (snd s) \<Longrightarrow> registryOk (snd s')"
  by (induction rule: reaches.induct) (auto simp: registerLink_ok)

lemma registerLink_keeps:
  assumes "registryOk r" "linkMap r k = Some v"
  shows "linkMap (snd (registerLink href r)) k = Some v"
proof (cases "rejectedHref (trim href)")
  case True
  then show ?thesis using assms by (simp add: registerLink_rejected)
next
  case False
  show ?thesis
  proof (cases "linkMap r (trim href)")
    case (Some w)
    then show ?thesis using assms False by (simp add: registerLink_found)
  next
    case None
    then have "k \<noteq> trim href" using assms(2) by auto
    then show ?thesis
      using assms by (simp add: registerLink_fresh [OF assms(1) None False])
  qed
qed

lemma registerLink_result:
  assumes "registryOk r"
  shows "fst (registerLink href r) =
           (if rejectedHref (trim href) then None
            else map_option (\<lambda>v. js ''@'' @ v) (linkMap (snd (registerLink href r)) (trim href)))"
proof (cases "rejectedHref (trim href)")
  case True
  then show ?thesis by (simp add: registerLink_rejected)
next
  case False
  show ?thesis
  proof (cases "linkMap r (trim href)")
    case (Some w)
    then show ?thesis using assms False by (simp add: registerLink_found)
  next
    case None
    then show ?thesis
      using False by (simp add: registerLink_fresh [OF assms None False])
  qed
qed

lemma registerLink_listed:
  assumes "registryOk r" "\<not> rejectedHref (trim href)"
  shows "trim href \<in> snd ` set (linkList (snd (registerLink href r)))"
proof (cases "linkMap r (trim href)")
  case (Some w)
  then have "(w, trim href) \<in> set (linkList r)" using assms registryOk_lookup by blast
  then show ?thesis using assms Some by (force simp: registerLink_found)
next
  case None
  then show ?thesis using assms by (simp add: registerLink_fresh [OF assms(1) None assms(2)])
qed

lemma reaches_then: "reaches cfg s0 s1 \<Longrightarrow> reaches cfg s1 s2 \<Longrightarrow> reaches cfg s0 s2"
  by (rule reaches_trans)

lemma reaches_register: "reaches cfg (e, r) (e, snd (registerLink href r))"
  using reaches.registered [OF reaches.here, of cfg "(e, r)" href] by simp

lemma reaches_getLinkRef: "reaches cfg (e, r) (e, snd (getLinkRef c el r))"
  by (auto simp: getLinkRef_def reaches.here reaches_register split: option.splits)

lemma reaches_collect:
  "reaches cfg (e, r) (e, snd (collectInlineText env n r))"
  "reaches cfg (e, r) (e, snd (collectParts env ns r))"
proof (induction env n r and env ns r rule: collectInlineText_collectParts.induct)
  case (1 env t a p cs r)
  then show ?case by (cases "collectParts env cs r") simp
next
  case (5 env s ns r)
  then show ?case by (cases "collectParts env ns r") simp
next
  case (7 env t a p cs ns r)
  show ?case
  proof (cases "toLowerCase (envConfig env) t = js ''a'' \<and> toLowerCase (envConfig env) t \<notin> set SKIP_TAGS \<and>
                cleanText (textContent (Element t a p cs)) \<noteq> []")
    case True
    obtain linkRef r1 where g: "getLinkRef (envConfig env) (Element t a p cs) r = (linkRef, r1)"
      by (cases "getLinkRef (envConfig env) (Element t a p cs) r")
    have a: "reaches cfg (e, r) (e, r1)"
      using reaches_getLinkRef [of cfg e r "envConfig env" "Element t a p cs"] g by simp
    from True have c1: "toLowerCase (envConfig env) t \<notin> set SKIP_TAGS" and c2: "toLowerCase (envConfig env) t = js ''a''"
      and c3: "cleanText (textContent (Element t a p cs)) \<noteq> []" by blast+
    have b: "reaches cfg (e, r1) (e, snd (collectParts env ns r1))"
      by (rule "7.IH"(2) [OF refl refl c1 c2 refl c3 g [symmetric]])
    show ?thesis
      using c1 c2 c3 g reaches_then [OF a b] by (auto simp: Let_def split: prod.splits)
  next
    case False
    show ?thesis
    proof (cases "toLowerCase (envConfig env) t \<in> set SKIP_TAGS \<or> toLowerCase (envConfig env) t = js ''a'' \<or>
                  toLowerCase (envConfig env) t \<in> set HEADING_TAGS \<or> toLowerCase (envConfig env) t \<in> set HEADING_LIKE_TAGS \<or>
                  toLowerCase (envConfig env) t \<in> set BLOCK_TEXT_TAGS \<or> toLowerCase (envConfig env) t = js ''ul'' \<or> toLowerCase (envConfig env) t = js ''ol'' \<or>
                  isHidden env (Element t a p cs)")
      case True
      then show ?thesis
        using False "7.IH"(1,3,4,5,6) by (auto simp: Let_def)
    next
      case skip: False
      obtain tx r1 where g: "collectInlineText env (Element t a p cs) r = (tx, r1)"
        by (cases "collectInlineText env (Element t a p cs) r")
      from skip have d1: "toLowerCase (envConfig env) t \<notin> set SKIP_TAGS" and d2: "toLowerCase (envConfig env) t \<noteq> js ''a''"
        and d3: "\<not> (toLowerCase (envConfig env) t \<in> set HEADING_TAGS \<or> toLowerCase (envConfig env) t \<in> set HEADING_LIKE_TAGS)"
        and d4: "\<not> (toLowerCase (envConfig env) t \<in> set BLOCK_TEXT_TAGS \<or> toLowerCase (envConfig env) t = js ''ul'' \<or> toLowerCase (envConfig env) t = js ''ol'')"
        and d5: "\<not> isHidden env (Element t a p cs)" by blast+
      have a: "reaches cfg (e, r) (e, r1)"
        using "7.IH"(7) [OF refl refl d1 d2 d3 d4 d5] g by simp
      have b: "reaches cfg (e, r1) (e, snd (collectParts env ns r1))"
        by (rule "7.IH"(8) [OF refl refl d1 d2 d3 d4 d5 g [symmetric]])
      show ?thesis
        using d1 d2 d3 d4 d5 g reaches_then [OF a b] by (auto simp: Let_def split: prod.splits)
    qed
  qed
qed (simp_all add: reaches.here)

lemma reaches_extractInlineText: "reaches cfg (e, r) (e, snd (extractInlineText env n r))"
  using reaches_collect(1) [of cfg e r env n]
  by (auto simp: extractInlineText_def split: prod.splits)

lemma reaches_firstLabel: "reaches cfg (e, r) (e, snd (firstLabel env ok limit ns r))"
proof (induction ns arbitrary: r)
  case Nil
  then show ?case by (simp add: reaches.here)
next
  case (Cons n ns)
  obtain tx r1 where g: "extractInlineText env n r = (tx, r1)"
    by (cases "extractInlineText env n r")
  have a: "reaches cfg (e, r) (e, r1)"
    using reaches_extractInlineText [of cfg e r env n] g by simp
  show ?case
    using g a reaches_then [OF a Cons.IH [of r1]] Cons.IH [of r] by simp
qed

lemma reaches_findGroupLabel: "reaches cfg (e, r) (e, snd (findGroupLabel env h r))"
proof -
  let ?el = "el_node h"
  obtain l1 r1 where g1: "firstLabel env (isLabelElement (envConfig env)) 40 (children ?el) r = (l1, r1)"
    by (cases "firstLabel env (isLabelElement (envConfig env)) 40 (children ?el) r")
  obtain l2 r2 where g2: "firstLabel env (isPlainElement (envConfig env)) 30 (children ?el) r1 = (l2, r2)"
    by (cases "firstLabel env (isPlainElement (envConfig env)) 30 (children ?el) r1")
  obtain l3 r3 where g3: "firstLabel env (isPlainElement (envConfig env)) 30 (descendantNodes ?el) r2 = (l3, r3)"
    by (cases "firstLabel env (isPlainElement (envConfig env)) 30 (descendantNodes ?el) r2")
  have a1: "reaches cfg (e, r) (e, r1)"
    using reaches_firstLabel [of cfg e r env "isLabelElement (envConfig env)" 40 "children ?el"] g1 by simp
  have a2: "reaches cfg (e, r) (e, r2)"
    using reaches_then [OF a1 reaches_firstLabel [of cfg e r1 env "isPlainElement (envConfig env)" 30 "children ?el"]] g2
    by simp
  have a3: "reaches cfg (e, r) (e, r3)"
    using reaches_then [OF a2 reaches_firstLabel [of cfg e r2 env "isPlainElement (envConfig env)" 30 "descendantNodes ?el"]] g3
    by simp
  have a4: "reaches cfg (e, r) (e, snd (firstLabel env (isPlainElement (envConfig env)) 30 [prev] r3))" for prev
    by (rule reaches_then [OF a3 reaches_firstLabel])
  show ?thesis
    using g1 g2 g3 a1 a2 a3 a4
    by (simp add: findGroupLabel_def Let_def reaches.here split: option.splits)
qed

lemma reaches_extractTexts: "reaches cfg (e, r) (e, snd (extractTexts env ns r))"
proof (induction ns arbitrary: r)
  case Nil
  then show ?case by (simp add: reaches.here)
next
  case (Cons n ns)
  obtain tx r1 where g: "extractInlineText env n r = (tx, r1)"
    by (cases "extractInlineText env n r")
  have a: "reaches cfg (e, r) (e, r1)"
    using reaches_extractInlineText [of cfg e r env n] g by simp
  show ?case
    using g reaches_then [OF a Cons.IH [of r1]] by (auto split: prod.splits)
qed

lemma reaches_extractFilterGroup: "reaches cfg (e, r) (e, snd (extractFilterGroup env h r))"
proof -
  let ?chips = "filter (\<lambda>n. \<not> isHidden env n) (querySelectorAll (el_node h) selInteractive)"
  obtain l1 r1 where g1: "findGroupLabel env h r = (l1, r1)"
    by (cases "findGroupLabel env h r")
  obtain l2 r2 where g2: "extractTexts env ?chips r1 = (l2, r2)"
    by (cases "extractTexts env ?chips r1")
  obtain l3 r3 where g3: "extractTexts env (filter (isActiveChip (envConfig env)) ?chips) r2 = (l3, r3)"
    by (cases "extractTexts env (filter (isActiveChip (envConfig env)) ?chips) r2")
  have a1: "reaches cfg (e, r) (e, r1)"
    using reaches_findGroupLabel [of cfg e r env h] g1 by simp
  have a2: "reaches cfg (e, r) (e, r2)"
    using reaches_then [OF a1 reaches_extractTexts [of cfg e r1 env ?chips]] g2 by simp
  have a3: "reaches cfg (e, r) (e, r3)"
    using reaches_then [OF a2 reaches_extractTexts [of cfg e r2 env "filter (isActiveChip (envConfig env)) ?chips"]] g3
    by simp
  show ?thesis
    using g1 g2 g3 a1 a2 a3
    by (simp add: extractFilterGroup_def Let_def reaches.here split: option.splits)
qed

lemma reaches_registerSource: "reaches cfg (e, r) (e, snd (registerSource source r))"
  by (simp add: registerSource_def reaches.here reaches_register)

lemma reaches_pair: "reaches cfg (e, r) (e, r1) \<Longrightarrow> reaches cfg (e, r) (emit cfg line linkRef (e, r1))"
  by (rule reaches_then [OF _ reaches_emit])

lemma reaches_walkHeading: "reaches (envConfig env) s (walkHeading env el s)"
proof -
  obtain tx r1 where g: "extractInlineText env el (snd s) = (tx, r1)"
    by (cases "extractInlineText env el (snd s)")
  have a: "reaches (envConfig env) (fst s, snd s) (fst s, r1)"
    using reaches_extractInlineText [of "envConfig env" "fst s" "snd s" env el] g by simp
  show ?thesis
    using g a reaches_pair [OF a] by (simp add: walkHeading_def)
qed

lemma reaches_walkBlockquote: "reaches (envConfig env) s (walkBlockquote env el s)"
proof -
  obtain tx r1 where g: "extractInlineText env el (snd s) = (tx, r1)"
    by (cases "extractInlineText env el (snd s)")
  have a: "reaches (envConfig env) (fst s, snd s) (fst s, r1)"
    using reaches_extractInlineText [of "envConfig env" "fst s" "snd s" env el] g by simp
  show ?thesis
    using g a reaches_pair [OF a] by (simp add: walkBlockquote_def)
qed

lemma reaches_walkBlockText: "reaches (envConfig env) s (walkBlockText env el s)"
proof -
  obtain tx r1 where g: "extractInlineText env el (snd s) = (tx, r1)"
    by (cases "extractInlineText env el (snd s)")
  have a: "reaches (envConfig env) (fst s, snd s) (fst s, r1)"
    using reaches_extractInlineText [of "envConfig env" "fst s" "snd s" env el] g by simp
  show ?thesis
    using g a reaches_pair [OF a] by (simp add: walkBlockText_def)
qed

lemma reaches_walkImg: "reaches (envConfig env) s (walkImg env el s)"
proof -
  let ?source = "firstNonEmpty [currentSrc (propsOf el), srcProp (propsOf el)]"
  obtain l r1 where g: "registerSource ?source (snd s) = (l, r1)"
    by (cases "registerSource ?source (snd s)")
  have a: "reaches (envConfig env) (fst s, snd s) (fst s, r1)"
    using reaches_registerSource [of "envConfig env" "fst s" "snd s" ?source] g by simp
  show ?thesis
    using g reaches_pair [OF a] by (simp add: walkImg_def Let_def)
qed

lemma reaches_walkVideo: "reaches (envConfig env) s (walkVideo env el s)"
proof -
  let ?source = "firstNonEmpty [currentSrc (propsOf el), srcProp (propsOf el),
                                  attributeOrEmpty el (js ''poster'')]"
  obtain l r1 where g: "registerSource ?source (snd s) = (l, r1)"
    by (cases "registerSource ?source (snd s)")
  have a: "reaches (envConfig env) (fst s, snd s) (fst s, r1)"
    using reaches_registerSource [of "envConfig env" "fst s" "snd s" ?source] g by simp
  show ?thesis
    using g reaches_pair [OF a] by (simp add: walkVideo_def Let_def)
qed

lemma reaches_walkFigure: "reaches (envConfig env) s (walkFigure env el s)"
proof -
  let ?cap = "(case querySelector el (tags [''figcaption'']) of
              None \<Rightarrow> ([], snd s)
            | Some captionEl \<Rightarrow> extractInlineText env captionEl (snd s))"
  obtain caption r1 where g: "?cap = (caption, r1)" by (cases ?cap)
  have a: "reaches (envConfig env) (fst s, snd s) (fst s, r1)"
  proof (cases "querySelector el (tags [''figcaption''])")
    case None
    then show ?thesis using g by (simp add: reaches.here)
  next
    case (Some captionEl)
    then show ?thesis
      using g reaches_extractInlineText [of "envConfig env" "fst s" "snd s" env captionEl] by simp
  qed
  have b: "reaches (envConfig env) (fst s, snd s) (fst s, snd (registerSource source r1))" for source
    by (rule reaches_then [OF a reaches_registerSource])
  have c: "reaches (envConfig env) (fst s, snd s)
             (emit (envConfig env) line linkRef (fst s, snd (registerSource source r1)))"
    for source line linkRef
    by (rule reaches_pair [OF b])
  have b': "reaches (envConfig env) s (fst s, x2)"
    if "registerSource source r1 = (x1, x2)" for source x1 x2
    using b [of source] that by simp
  have c': "reaches (envConfig env) s (emit (envConfig env) line linkRef (fst s, x2))"
    if "registerSource source r1 = (x1, x2)" for source x1 x2 line linkRef
    using c [of line linkRef source] that by simp
  show ?thesis
    unfolding walkFigure_def g Let_def
    by (auto split: prod.splits intro: b' c')
qed

lemma reaches_walkListItemLine: "reaches (envConfig env) s (walkListItemLine env el listDepth s)"
proof -
  obtain tx r1 where g: "extractInlineText env el (snd s) = (tx, r1)"
    by (cases "extractInlineText env el (snd s)")
  obtain l r2 where g2: "getLinkRef (envConfig env) el r1 = (l, r2)"
    by (cases "getLinkRef (envConfig env) el r1")
  have a: "reaches (envConfig env) (fst s, snd s) (fst s, r1)"
    using reaches_extractInlineText [of "envConfig env" "fst s" "snd s" env el] g by simp
  have b: "reaches (envConfig env) (fst s, snd s) (fst s, r2)"
    using reaches_then [OF a reaches_getLinkRef [of "envConfig env" "fst s" r1 "envConfig env" el]] g2
    by simp
  show ?thesis
    using g g2 b reaches_pair [OF b] by (simp add: walkListItemLine_def Let_def)
qed

lemma reaches_walkInlineControl: "reaches (envConfig env) s (walkInlineControl env el listDepth s)"
proof -
  obtain tx r1 where g: "extractInlineText env el (snd s) = (tx, r1)"
    by (cases "extractInlineText env el (snd s)")
  obtain l r2 where g2: "getLinkRef (envConfig env) el r1 = (l, r2)"
    by (cases "getLinkRef (envConfig env) el r1")
  have a: "reaches (envConfig env) (fst s, snd s) (fst s, r1)"
    using reaches_extractInlineText [of "envConfig env" "fst s" "snd s" env el] g by simp
  have b: "reaches (envConfig env) (fst s, snd s) (fst s, r2)"
    using reaches_then [OF a reaches_getLinkRef [of "envConfig env" "fst s" r1 "envConfig env" el]] g2
    by simp
  show ?thesis
    using g g2 b reaches_pair [OF b] by (simp add: walkInlineControl_def)
qed

lemma reaches_walkCard: "reaches (envConfig env) s (walkCard env h listDepth s)"
proof -
  obtain l r1 where g: "getLinkRef (envConfig env) (el_node h) (snd s) = (l, r1)"
    by (cases "getLinkRef (envConfig env) (el_node h) (snd s)")
  have a: "reaches (envConfig env) (fst s, snd s) (fst s, r1)"
    using reaches_getLinkRef [of "envConfig env" "fst s" "snd s" "envConfig env" "el_node h"] g by simp
  show ?thesis
    using g a reaches_pair [OF a] by (simp add: walkCard_def Let_def)
qed

lemma reaches_walkFilterGroup: "reaches (envConfig env) s (snd (walkFilterGroup env h listDepth s))"
proof -
  obtain grp r1 where g: "extractFilterGroup env h (snd s) = (grp, r1)"
    by (cases "extractFilterGroup env h (snd s)")
  have a: "reaches (envConfig env) (fst s, snd s) (fst s, r1)"
    using reaches_extractFilterGroup [of "envConfig env" "fst s" "snd s" env h] g by simp
  show ?thesis
    using g a reaches_pair [OF a]
    by (simp add: walkFilterGroup_def Let_def split: option.splits)
qed

lemma reaches_walkContainer: "reaches (envConfig env) s (snd (walkContainer env h s))"
proof -
  obtain tx r1 where g: "extractInlineText env (el_node h) (snd s) = (tx, r1)"
    by (cases "extractInlineText env (el_node h) (snd s)")
  have a: "reaches (envConfig env) (fst s, snd s) (fst s, r1)"
    using reaches_extractInlineText [of "envConfig env" "fst s" "snd s" env "el_node h"] g by simp
  show ?thesis
    using g a reaches_pair [OF a] by (simp add: walkContainer_def reaches.here)
qed

lemma reaches_walkLeaf: "reaches (envConfig env) s (snd (walkLeaf env el s))"
proof -
  obtain l r1 where g: "getLinkRef (envConfig env) el (snd s) = (l, r1)"
    by (cases "getLinkRef (envConfig env) el (snd s)")
  have a: "reaches (envConfig env) (fst s, snd s) (fst s, r1)"
    using reaches_getLinkRef [of "envConfig env" "fst s" "snd s" "envConfig env" el] g by simp
  show ?thesis
    using g a reaches_pair [OF a] by (simp add: walkLeaf_def Let_def reaches.here)
qed

lemma reaches_walkPlain: "reaches (envConfig env) s (snd (walkPlain env h listDepth s))"
proof -
  obtain d1 s1 where g1: "walkFilterGroup env h listDepth s = (d1, s1)"
    by (cases "walkFilterGroup env h listDepth s")
  have a1: "reaches (envConfig env) s s1"
    using reaches_walkFilterGroup [of env s h listDepth] g1 by simp
  let ?c = "(if tagOf (envConfig env) (el_node h) \<in> set CONTAINER_TAGS then walkContainer env h s1 else (False, s1))"
  obtain d2 s2 where g2: "?c = (d2, s2)" by (cases ?c)
  have a2: "reaches (envConfig env) s s2"
  proof (cases "tagOf (envConfig env) (el_node h) \<in> set CONTAINER_TAGS")
    case True
    then show ?thesis
      using g2 reaches_then [OF a1 reaches_walkContainer [of env s1 h]] by simp
  next
    case False
    then show ?thesis using g2 a1 by simp
  qed
  have b: "reaches (envConfig env) s (walkCard env h listDepth s1)"
    by (rule reaches_then [OF a1 reaches_walkCard])
  have c: "reaches (envConfig env) s (walkBlockText env (el_node h) s1)"
    by (rule reaches_then [OF a1 reaches_walkBlockText])
  have d: "reaches (envConfig env) s (walkInlineControl env (el_node h) listDepth s2)"
    by (rule reaches_then [OF a2 reaches_walkInlineControl])
  have e: "reaches (envConfig env) s (snd (walkLeaf env (el_node h) s2))"
    by (rule reaches_then [OF a2 reaches_walkLeaf])
  show ?thesis
    unfolding walkPlain_def Let_def g1
    using a1 a2 b c d e g2 by (cases d1; cases d2) (simp_all del: set_map)
qed

lemma reaches_emitHiddenHeading:
  "reaches cfg s (emitHiddenHeading cfg el (fst s), snd s)"
  using reaches.added [OF reaches.here, of cfg s] reaches.here [of cfg s]
  by (simp add: emitHiddenHeading_def Let_def)

lemma reaches_walk:
  "reaches (envConfig env) s (walk env h depth listDepth s)"
  "reaches (envConfig env) s (walkAll env stop xs depth listDepth s)"
proof (induction env h depth listDepth s and env stop xs depth listDepth s rule: walk_walkAll.induct)
  case (1 env h depth listDepth s)
  let ?tag = "tagOf (envConfig env) (el_node h)"
  note w = walk.simps(1) [of env h depth listDepth s]
  consider
      (stopped) "truncated (fst s)"
    | (deep) "\<not> truncated (fst s)" "greaterNum (ofNat depth) (maxDepth (envConfig env))"
    | (skipTag) "\<not> truncated (fst s)" "\<not> greaterNum (ofNat depth) (maxDepth (envConfig env))" "?tag \<in> set SKIP_TAGS"
    | (skipped) "\<not> truncated (fst s)" "\<not> greaterNum (ofNat depth) (maxDepth (envConfig env))" "?tag \<notin> set SKIP_TAGS"
        "shouldSkip env (walkMode (fst s)) h"
    | (hidden) "\<not> truncated (fst s)" "\<not> greaterNum (ofNat depth) (maxDepth (envConfig env))" "?tag \<notin> set SKIP_TAGS"
        "\<not> shouldSkip env (walkMode (fst s)) h" "isHidden env (el_node h)"
    | (visible) "\<not> truncated (fst s)" "\<not> greaterNum (ofNat depth) (maxDepth (envConfig env))" "?tag \<notin> set SKIP_TAGS"
        "\<not> shouldSkip env (walkMode (fst s)) h" "\<not> isHidden env (el_node h)"
    by blast
  then show ?case
  proof cases
    case stopped
    then show ?thesis unfolding w by (simp only: if_True reaches.here)
  next
    case deep
    then show ?thesis unfolding w by (simp only: if_True if_False reaches.here)
  next
    case skipTag
    then show ?thesis unfolding w by (simp only: if_True if_False reaches.here)
  next
    case skipped
    then show ?thesis unfolding w by (simp only: if_True if_False reaches.here)
  next
    case hidden
    then show ?thesis unfolding w by (simp only: if_True if_False reaches_emitHiddenHeading)
  next
    case visible
    note pre = visible
    consider
        (list) "?tag = js ''ul'' \<or> ?tag = js ''ol''"
      | (heading) "\<not> (?tag = js ''ul'' \<or> ?tag = js ''ol'')"
          "?tag \<in> set HEADING_TAGS \<or> ?tag \<in> set HEADING_LIKE_TAGS \<or>
           getAttribute (el_node h) (js ''role'') = Some (js ''heading'')"
      | (other) "\<not> (?tag = js ''ul'' \<or> ?tag = js ''ol'')"
          "\<not> (?tag \<in> set HEADING_TAGS \<or> ?tag \<in> set HEADING_LIKE_TAGS \<or>
           getAttribute (el_node h) (js ''role'') = Some (js ''heading''))"
      by blast
    then show ?thesis
    proof cases
      case list
      let ?s1 = "walkAll env True
                      (itemsBelow (listLimit (envConfig env) (length (listItems (envConfig env) h))) 0
                         (listItems (envConfig env) h))
                      (depth + 1) (listDepth + 1) s"
      have ih: "reaches (envConfig env) s ?s1"
        by (rule "1.IH"(1) [OF pre list])
      have ih2: "reaches (envConfig env) s (emit (envConfig env) line None ?s1)" for line
        by (rule reaches_then [OF ih reaches_emit])
      show ?thesis
        unfolding w using ih ih2
        by (simp only: pre list if_True if_False Let_def split: if_split, simp)
    next
      case heading
      then show ?thesis
        unfolding w by (simp only: pre if_True if_False reaches_walkHeading)
    next
      case other
      consider
          (blockquote) "?tag = js ''blockquote''"
        | (figure) "?tag \<noteq> js ''blockquote''" "?tag = js ''figure''"
        | (img) "?tag \<noteq> js ''blockquote''" "?tag \<noteq> js ''figure''" "?tag = js ''img''"
        | (video) "?tag \<noteq> js ''blockquote''" "?tag \<noteq> js ''figure''" "?tag \<noteq> js ''img''"
            "?tag = js ''video''"
        | (rest) "?tag \<noteq> js ''blockquote''" "?tag \<noteq> js ''figure''" "?tag \<noteq> js ''img''"
            "?tag \<noteq> js ''video''"
        by blast
      then show ?thesis
      proof cases
        case blockquote
        then show ?thesis
          unfolding w using pre other by (simp add: reaches_walkBlockquote)
      next
        case figure
        then show ?thesis
          unfolding w using pre other by (simp add: reaches_walkFigure)
      next
        case img
        then show ?thesis
          unfolding w using pre other by (simp add: reaches_walkImg)
      next
        case video
        then show ?thesis
          unfolding w using pre other by (simp add: reaches_walkVideo)
      next
        case rest
        show ?thesis
        proof (cases "?tag = js ''li''")
          case True
          have ih: "reaches (envConfig env) (walkListItemLine env (el_node h) listDepth s)
                     (walkAll env False (nestedLists (envConfig env) h) (depth + 1) (listDepth + 1)
                        (walkListItemLine env (el_node h) listDepth s))"
            by (rule "1.IH"(2) [OF pre other rest True])
          show ?thesis
            unfolding w using pre other rest True reaches_then [OF reaches_walkListItemLine ih]
            by simp
        next
          case notli: False
          obtain d s1 where g: "walkPlain env h listDepth s = (d, s1)"
            by (cases "walkPlain env h listDepth s")
          have a: "reaches (envConfig env) s s1"
            using reaches_walkPlain [of env s h listDepth] g by simp
          show ?thesis
          proof (cases d)
            case True
            then show ?thesis
              unfolding w using a
              by (simp only: pre other rest notli g if_True if_False prod.case bool.case)
          next
            case False
            have ih: "reaches (envConfig env) s1 (walkAll env True (childElems h) (depth + 1) listDepth s1)"
              using "1.IH"(3) [OF pre other rest notli g [symmetric]] False
              by simp
            show ?thesis
              unfolding w using False reaches_then [OF a ih]
              by (simp only: pre other rest notli g if_True if_False prod.case bool.case)
          qed
        qed
      qed
    qed
  qed
next
  case (2 env stop depth listDepth s)
  show ?case by (simp add: reaches.here)
next
  case (3 env stop x xs depth listDepth s)
  have a: "reaches (envConfig env) s (walk env x depth listDepth s)" by (rule "3.IH"(1))
  show ?case
  proof (cases "stop \<and> truncated (fst (walk env x depth listDepth s))")
    case True
    then show ?thesis using a by (simp add: Let_def)
  next
    case False
    have b: "reaches (envConfig env) (walk env x depth listDepth s)
               (walkAll env stop xs depth listDepth (walk env x depth listDepth s))"
      by (rule "3.IH"(2) [OF refl False])
    show ?thesis using False a reaches_then [OF a b] by (auto simp: Let_def)
  qed
qed

lemma reaches_switch:
  "reaches cfg s ((fst s)\<lparr>shellMode := a, shellRemaining := b, walkMode := c\<rparr>, snd s)"
  by (rule reaches.switched [OF reaches.here])

lemma reaches_withShellMode:
  assumes "\<And>s0. reaches cfg s0 (fn s0)"
  shows "reaches cfg s (withShellMode limit fn s)"
proof -
  let ?s0 = "((fst s)\<lparr>shellMode := True, shellRemaining := limit, walkMode := ShellWalk\<rparr>, snd s)"
  have a: "reaches cfg s ?s0" by (rule reaches_switch)
  have b: "reaches cfg s (fn ?s0)" by (rule reaches_then [OF a assms])
  have c: "reaches cfg (fn ?s0)
             ((fst (fn ?s0))\<lparr>shellMode := shellMode (fst s), shellRemaining := shellRemaining (fst s),
                   walkMode := walkMode (fst s)\<rparr>, snd (fn ?s0))"
    by (rule reaches_switch)
  show ?thesis
    using reaches_then [OF b c] by (simp add: withShellMode_def Let_def)
qed

lemma reaches_walkShellRoots: "reaches (envConfig env) s (walkShellRoots env rts s)"
proof (induction rts arbitrary: s)
  case Nil
  then show ?case by (simp add: reaches.here)
next
  case (Cons rt rts)
  show ?case
    using reaches_then [OF reaches_walk(1) [of env s rt 0 0] Cons.IH [of "walk env rt 0 0 s"]]
    by (simp add: reaches.here)
qed

lemma reaches_shellPass: "reaches (envConfig env) s (shellPass env shellRoots s)"
  by (simp add: shellPass_def reaches.here reaches_withShellMode reaches_walkShellRoots)

lemma reaches_mainPass: "reaches (envConfig env) s (mainPass env roots s)"
proof -
  have e: "(fst s)\<lparr>walkMode := MainWalk\<rparr> =
           (fst s)\<lparr>shellMode := shellMode (fst s), shellRemaining := shellRemaining (fst s),
                    walkMode := MainWalk\<rparr>"
    by simp
  have a: "reaches (envConfig env) s ((fst s)\<lparr>walkMode := MainWalk\<rparr>, snd s)"
    unfolding e by (rule reaches_switch)
  show ?thesis
    unfolding mainPass_def by (rule reaches_then [OF a reaches_walk(2)])
qed

lemma reaches_walked: "reaches (envConfig env) (initEmitter, initRegistry) (walked env roots shellRoots)"
  unfolding walked_def by (rule reaches_then [OF reaches_shellPass reaches_mainPass])

lemma reaches_registerAnchors: "reaches cfg (e, r) (e, registerAnchors anchors r)"
proof (induction anchors arbitrary: r)
  case Nil
  then show ?case by (simp add: reaches.here)
next
  case (Cons anchor anchors)
  show ?case
    using Cons.IH [of r]
      reaches_then [OF reaches_register [of cfg e r "anchorHref anchor"]
        Cons.IH [of "snd (registerLink (anchorHref anchor) r)"]]
    by simp
qed

lemma reaches_registerShellAnchors: "reaches cfg (e, r) (e, registerShellAnchors base anchors r)"
proof (induction anchors arbitrary: r)
  case Nil
  then show ?case by (simp add: reaches.here)
next
  case (Cons anchor anchors)
  show ?case
    using Cons.IH [of r]
      reaches_then [OF reaches_register [of cfg e r "anchorHref anchor"]
        Cons.IH [of "snd (registerLink (anchorHref anchor) r)"]]
    by (simp add: reaches.here)
qed

lemma reaches_sweepShellRoots: "reaches cfg (e, r) (e, sweepShellRoots base rts r)"
proof (induction rts arbitrary: r)
  case Nil
  then show ?case by (simp add: reaches.here)
next
  case (Cons rt rts)
  let ?r1 = "registerShellAnchors base (querySelectorAll (el_node rt) selAnchorWithHref) r"
  have a: "reaches cfg (e, r) (e, ?r1)" by (rule reaches_registerShellAnchors)
  show ?case
    using a reaches_then [OF a Cons.IH [of ?r1]] by (simp add: Let_def)
qed

lemma reaches_sweepLinks: "reaches cfg s (fst s, sweepLinks cfg roots (snd s))"
  using reaches_registerAnchors [of cfg "fst s" "snd s"] reaches.here [of cfg s]
  by (simp add: sweepLinks_def)

lemma reaches_sweepShellLinks: "reaches cfg (e, r) (e, sweepShellLinks cfg shellRoots r)"
  by (simp add: sweepShellLinks_def reaches.here reaches_sweepShellRoots)

lemma reaches_swept: "reaches (envConfig env) (initEmitter, initRegistry) (swept env roots shellRoots)"
proof -
  let ?s = "walked env roots shellRoots"
  let ?r1 = "sweepLinks (envConfig env) roots (snd ?s)"
  have a: "reaches (envConfig env) ?s (fst ?s, ?r1)"
    by (rule reaches_sweepLinks)
  have b: "reaches (envConfig env) (fst ?s, ?r1) (fst ?s, sweepShellLinks (envConfig env) shellRoots ?r1)"
    by (rule reaches_sweepShellLinks)
  show ?thesis
    unfolding swept_def Let_def
    by (rule reaches_then [OF reaches_walked reaches_then [OF a b]])
qed

lemma reaches_addNodeLine: "reaches (envConfig env) s (addNodeLine env n s)"
proof -
  obtain tx r1 where g: "extractInlineText env n (snd s) = (tx, r1)"
    by (cases "extractInlineText env n (snd s)")
  have a: "reaches (envConfig env) (fst s, snd s) (fst s, r1)"
    using reaches_extractInlineText [of "envConfig env" "fst s" "snd s" env n] g by simp
  show ?thesis
    using g a reaches_pair [OF a] by (simp add: addNodeLine_def Let_def reaches.here)
qed

lemma reaches_addNodeLines: "reaches (envConfig env) s (addNodeLines env ns s)"
proof (induction ns arbitrary: s)
  case Nil
  then show ?case by (simp add: reaches.here)
next
  case (Cons n ns)
  show ?case
    using reaches_addNodeLine [of env s n]
      reaches_then [OF reaches_addNodeLine [of env s n] Cons.IH [of "addNodeLine env n s"]]
    by (simp add: Let_def)
qed

lemma reaches_addSegments: "reaches cfg s (addSegments cfg segs s)"
proof (induction segs arbitrary: s)
  case Nil
  then show ?case by (simp add: reaches.here)
next
  case (Cons seg segs)
  show ?case
    using Cons.IH [of s] reaches_then [OF reaches_emit Cons.IH [of "emit cfg seg None s"]]
    by simp
qed

lemma reaches_fallbackRoot: "reaches (envConfig env) s (fallbackRoot env rt s)"
  using reaches_addNodeLines reaches_then [OF reaches_addNodeLines reaches_addSegments]
  by (simp add: fallbackRoot_def Let_def)

lemma reaches_foldl_fallback:
  "reaches (envConfig env) s (foldl (\<lambda>st rt. fallbackRoot env rt st) s rts)"
proof (induction rts arbitrary: s)
  case Nil
  then show ?case by (simp add: reaches.here)
next
  case (Cons rt rts)
  show ?case
    using reaches_then [OF reaches_fallbackRoot [of env s rt] Cons.IH [of "fallbackRoot env rt s"]]
    by simp
qed

lemma reaches_fallbackPass: "reaches (envConfig env) s (fallbackPass env roots s)"
  by (simp add: fallbackPass_def Let_def reaches.here reaches_foldl_fallback)

lemma reaches_addLine: "reaches cfg (e, r) (addLine cfg line linkRef e, r)"
  using reaches.added [OF reaches.here, of cfg "(e, r)" line linkRef] by simp

lemma reaches_addLinkLines: "reaches cfg (e, r) (addLinkLines cfg links e, r)"
proof (induction links arbitrary: e)
  case Nil
  then show ?case by (simp add: reaches.here)
next
  case (Cons link links)
  let ?e1 = "addLine cfg (js ''@'' @ fst link @ js '' '' @ snd link) None e"
  have a: "reaches cfg (e, r) (?e1, r)" by (rule reaches_addLine)
  show ?case
    using a reaches_then [OF a Cons.IH [of ?e1]] by (simp add: Let_def)
qed

lemma reaches_linkTable: "reaches cfg s (linkTable cfg s)"
proof -
  have a: "reaches cfg (fst s, snd s) (addLine cfg (js ''### Links'') None (fst s), snd s)"
    by (rule reaches_addLine)
  have b: "reaches cfg (fst s, snd s)
             (addLinkLines cfg (linkList (snd s)) (addLine cfg (js ''### Links'') None (fst s)), snd s)"
    by (rule reaches_then [OF a reaches_addLinkLines])
  show ?thesis using b by (simp add: linkTable_def reaches.here)
qed

lemma reaches_runPasses:
  "reaches (envConfig env) (initEmitter, initRegistry) (runPasses env roots shellRoots)"
  unfolding runPasses_def
  by (rule reaches_then [OF reaches_then [OF reaches_swept reaches_fallbackPass] reaches_linkTable])

lemma reaches_after_swept:
  "reaches (envConfig env) (swept env roots shellRoots) (runPasses env roots shellRoots)"
  unfolding runPasses_def
  by (rule reaches_then [OF reaches_fallbackPass reaches_linkTable])


subsection \<open>The result of a call\<close>

lemma selectRoots_config:
  assumes "selectRoots hst cfg = Inr (roots, shellRoots, cfg')"
  shows "cfg' = cfg \<or> cfg' = widenForArticle cfg"
  using assms
  by (auto simp: selectRoots_def Let_def split: option.splits sum.splits if_splits prod.splits)

lemma widenForArticle_other:
  "maxItems (widenForArticle cfg) = maxItems cfg"
  "maxDepth (widenForArticle cfg) = maxDepth cfg"
  "linksEnabled (widenForArticle cfg) = linksEnabled cfg"
  "maxListItems (widenForArticle cfg) = maxListItems cfg"
  "dedupeWindow (widenForArticle cfg) = dedupeWindow cfg"
  "dedupeEnabled (widenForArticle cfg) = dedupeEnabled cfg"
  by (simp_all add: widenForArticle_def)

lemma getReadableText_Inr:
  assumes "getReadableText hst opts = Inr res"
  obtains roots shellRoots cfg where
    "selectRoots hst (resolveConfig (hostLowerCase hst) opts) = Inr (roots, shellRoots, cfg)"
    "res = assemble cfg (runPasses (mkEnv hst cfg roots shellRoots) roots shellRoots)"
proof -
  obtain chosen where c: "selectRoots hst (resolveConfig (hostLowerCase hst) opts) = Inr chosen"
    and r: "res = readFrom hst chosen"
    using assms by (auto simp: getReadableText_def split: sum.splits)
  obtain roots shellRoots cfg where ch: "chosen = (roots, shellRoots, cfg)"
    by (cases chosen) auto
  show ?thesis
    using that [of roots shellRoots cfg] c r ch by simp
qed

lemma envConfig_mkEnv: "envConfig (mkEnv hst cfg roots shellRoots) = cfg"
  by (simp add: mkEnv_def)


subsection \<open>Item budget and truncation\<close>

lemma mathMax_Num:
  "mathMax (Num a) x = Num q \<Longrightarrow> a \<le> q"
  by (cases x) (auto simp: mathMax_def split: if_splits)

lemma resolved_maxItems: "maxItems (resolveConfig lower opts) = Num q \<Longrightarrow> 1 \<le> q"
  using mathMax_Num [of 1 _ q]
  by (auto simp: resolveConfig_def atLeastNum_def split: option.splits)

lemma resolved_whole_cap:
  "opt_maxItems opts = Some (Num (of_nat n)) \<Longrightarrow> 1 \<le> n \<Longrightarrow>
   maxItems (resolveConfig lower opts) = Num (of_nat n)"
  by (auto simp: resolveConfig_def atLeastNum_def mathMax_def)

lemma resolved_no_cap:
  "opt_maxItems opts = None \<Longrightarrow> maxItems (resolveConfig lower opts) = PosInfinity"
  "opt_maxItems opts = Some NaN \<Longrightarrow> maxItems (resolveConfig lower opts) = NaN"
  by (simp_all add: resolveConfig_def atLeastNum_def mathMax_def)

lemma runPasses_facts:
  shows "maxItems cfg = Num q \<Longrightarrow> 1 \<le> q \<Longrightarrow>
         int (itemCount (fst (runPasses (mkEnv hst cfg roots shellRoots) roots shellRoots))) \<le> \<lceil>q\<rceil>"
    and "truncated (fst (runPasses (mkEnv hst cfg roots shellRoots) roots shellRoots)) \<longrightarrow>
         geqNum (ofNat (itemCount (fst (runPasses (mkEnv hst cfg roots shellRoots) roots shellRoots))))
           (maxItems cfg)"
    and "length (lines (fst (runPasses (mkEnv hst cfg roots shellRoots) roots shellRoots))) =
         itemCount (fst (runPasses (mkEnv hst cfg roots shellRoots) roots shellRoots))"
proof -
  have r: "reaches cfg (initEmitter, initRegistry) (runPasses (mkEnv hst cfg roots shellRoots) roots shellRoots)"
    using reaches_runPasses [of "mkEnv hst cfg roots shellRoots" roots shellRoots]
    by (simp add: envConfig_mkEnv)
  show "int (itemCount (fst (runPasses (mkEnv hst cfg roots shellRoots) roots shellRoots))) \<le> \<lceil>q\<rceil>"
    if "maxItems cfg = Num q" "1 \<le> q"
  proof -
    have "0 \<le> \<lceil>q\<rceil>" using that(2) by (simp add: le_ceiling_iff)
    then show ?thesis using reaches_items [OF r that(1)] by (simp add: initEmitter_def)
  qed
  show "truncated (fst (runPasses (mkEnv hst cfg roots shellRoots) roots shellRoots)) \<longrightarrow>
         geqNum (ofNat (itemCount (fst (runPasses (mkEnv hst cfg roots shellRoots) roots shellRoots))))
           (maxItems cfg)"
    using reaches_flag [OF r] by (simp add: initEmitter_def)
  show "length (lines (fst (runPasses (mkEnv hst cfg roots shellRoots) roots shellRoots))) =
         itemCount (fst (runPasses (mkEnv hst cfg roots shellRoots) roots shellRoots))"
    using reaches_count [OF r] by (simp add: initEmitter_def)
qed

lemma result_budget:
  assumes "getReadableText hst opts = Inr res"
  shows "stats_lines (res_stats res) = stats_items (res_stats res)"
    and "maxItems (resolveConfig (hostLowerCase hst) opts) = Num q \<Longrightarrow>
         int (stats_items (res_stats res)) \<le> \<lceil>q\<rceil>"
    and "res_truncated res \<Longrightarrow>
         geqNum (ofNat (stats_items (res_stats res))) (maxItems (resolveConfig (hostLowerCase hst) opts))"
proof -
  obtain roots shellRoots cfg where
    sel: "selectRoots hst (resolveConfig (hostLowerCase hst) opts) = Inr (roots, shellRoots, cfg)" and
    res: "res = assemble cfg (runPasses (mkEnv hst cfg roots shellRoots) roots shellRoots)"
    using assms by (rule getReadableText_Inr)
  have m: "maxItems cfg = maxItems (resolveConfig (hostLowerCase hst) opts)"
    using selectRoots_config [OF sel] by (auto simp: widenForArticle_other)
  show "stats_lines (res_stats res) = stats_items (res_stats res)"
    using runPasses_facts(3) [of hst cfg roots shellRoots] by (simp add: res assemble_def)
  show "int (stats_items (res_stats res)) \<le> \<lceil>q\<rceil>"
    if "maxItems (resolveConfig (hostLowerCase hst) opts) = Num q"
    using runPasses_facts(1) [of cfg q hst roots shellRoots] m that resolved_maxItems [OF that]
    by (simp add: res assemble_def)
  show "geqNum (ofNat (stats_items (res_stats res))) (maxItems (resolveConfig (hostLowerCase hst) opts))"
    if "res_truncated res"
    using runPasses_facts(2) [of hst cfg roots shellRoots] m that
    by (simp add: res assemble_def)
qed

lemma result_whole_cap:
  assumes "getReadableText hst opts = Inr res" "opt_maxItems opts = Some (Num (of_nat n))" "1 \<le> n"
  shows "stats_items (res_stats res) \<le> n \<and> (res_truncated res \<longrightarrow> stats_items (res_stats res) = n)"
proof -
  have m: "maxItems (resolveConfig (hostLowerCase hst) opts) = Num (of_nat n)"
    by (rule resolved_whole_cap [OF assms(2,3)])
  have a: "stats_items (res_stats res) \<le> n"
    using result_budget(2) [OF assms(1) m] by simp
  have b: "n \<le> stats_items (res_stats res)" if "res_truncated res"
    using result_budget(3) [OF assms(1) that] m by (simp add: geqNum_ofNat)
  show ?thesis using a b by auto
qed

lemma result_no_cap:
  assumes "getReadableText hst opts = Inr res" "opt_maxItems opts = None \<or> opt_maxItems opts = Some NaN"
  shows "\<not> res_truncated res"
proof
  assume t: "res_truncated res"
  have "maxItems (resolveConfig (hostLowerCase hst) opts) = PosInfinity \<or>
        maxItems (resolveConfig (hostLowerCase hst) opts) = NaN"
    using assms(2) resolved_no_cap [of opts "hostLowerCase hst"] by blast
  then show False
    using result_budget(3) [OF assms(1) t] by (auto simp: geqNum_ofNat)
qed

lemma frozen_passes:
  assumes "truncated (fst s)"
  shows "lines (fst (fallbackPass env roots s)) = lines (fst s)"
    and "lines (fst (linkTable cfg s)) = lines (fst s)"
    and "walk env h depth listDepth s = s"
  using reaches_frozen [OF reaches_fallbackPass assms] reaches_frozen [OF reaches_linkTable assms]
    assms
  by (simp_all add: walk.simps(1))

lemma addLine_sets_flag:
  assumes "\<not> truncated e" "\<not> (shellMode e \<and> shellRemaining e \<le> 0)" "cleanedLine line \<noteq> []"
    "\<not> (dedupeEnabled cfg \<and> \<not> startsWith (cleanedLine line) (js ''#'') \<and>
        fingerprintLine cfg (cleanedLine line) \<in> fingerprintSet e)"
    "geqNum (ofNat (itemCount e)) (maxItems cfg)"
  shows "addLine cfg line linkRef e = e\<lparr>truncated := True\<rparr>"
  using assms by (auto simp: addLine_def cleanedLine_def Let_def)

text \<open>
  Against claim C1 as it is written: \<^verbatim>\<open>maxItems\<close> is any number, and line 34 does not round
  it. Read with \<^verbatim>\<open>maxItems = 1.5\<close>, the two paragraphs and the link give two items, which is
  more than 1.5: the budget check \<^verbatim>\<open>itemCount >= maxItems\<close> lets the second line pass at
  count 1. Read with \<^verbatim>\<open>maxItems = NaN\<close> they give all their five lines and the flag is
  never set, since no number is at least \<^verbatim>\<open>NaN\<close>.
\<close>

theorem item_count_above_fractional_cap:
  "getReadableText (hostOf budgetDoc) halfOptions =
     Inr \<lparr> res_text = js ''one'' @ [newline] @ js ''two'', res_truncated = True,
           res_stats = \<lparr> stats_lines = 2, stats_maxDepth = Num 6, stats_items = 2 \<rparr>,
           res_links = [(js ''L1'', js ''https://x/'')] \<rparr> \<and>
   maxItems (resolveConfig lowerAscii halfOptions) = Num (3 / 2) \<and>
   greaterNum (ofNat 2) (Num (3 / 2)) \<and>
   getReadableText (hostOf budgetDoc) nanOptions =
     Inr \<lparr> res_text = js ''one'' @ [newline] @ js ''two'' @ [newline] @ js ''- @L1 more'' @ [newline] @
                        js ''### Links'' @ [newline] @ js ''@L1 https://x/'',
           res_truncated = False,
           res_stats = \<lparr> stats_lines = 5, stats_maxDepth = Num 6, stats_items = 5 \<rparr>,
           res_links = [(js ''L1'', js ''https://x/'')] \<rparr> \<and>
   maxItems (resolveConfig lowerAscii nanOptions) = NaN"
proof -
  have a: "getReadableText (hostOf budgetDoc) halfOptions =
     Inr \<lparr> res_text = js ''one'' @ [newline] @ js ''two'', res_truncated = True,
           res_stats = \<lparr> stats_lines = 2, stats_maxDepth = Num 6, stats_items = 2 \<rparr>,
           res_links = [(js ''L1'', js ''https://x/'')] \<rparr>"
    by code_simp
  have b: "maxItems (resolveConfig lowerAscii halfOptions) = Num (3 / 2)"
    by code_simp
  have c: "greaterNum (ofNat 2) (Num (3 / 2))"
    by code_simp
  have d: "getReadableText (hostOf budgetDoc) nanOptions =
     Inr \<lparr> res_text = js ''one'' @ [newline] @ js ''two'' @ [newline] @ js ''- @L1 more'' @ [newline] @
                        js ''### Links'' @ [newline] @ js ''@L1 https://x/'',
           res_truncated = False,
           res_stats = \<lparr> stats_lines = 5, stats_maxDepth = Num 6, stats_items = 5 \<rparr>,
           res_links = [(js ''L1'', js ''https://x/'')] \<rparr>"
    by code_simp
  have e: "maxItems (resolveConfig lowerAscii nanOptions) = NaN"
    by code_simp
  show ?thesis using a b c d e by blast
qed

text \<open>
  Claim C1, amended. The cap is \<^verbatim>\<open>Math.max(1, maxItems)\<close>, any number. The result has as
  many lines as items. When the cap is a finite number, the count of items is at most the
  cap rounded up to a whole number; so it never exceeds a cap that is a whole number,
  and a result with \<^verbatim>\<open>truncated = true\<close> has exactly that many items. A result with
  \<^verbatim>\<open>truncated = true\<close> has at least as many items as the cap; without \<^verbatim>\<open>maxItems\<close>, or with
  \<^verbatim>\<open>NaN\<close> for it, the flag is never set. \<^verbatim>\<open>addLine\<close> does nothing once the flag is set; it
  sets the flag only in the budget check \<^verbatim>\<open>itemCount >= maxItems\<close>, and then appends
  nothing; a candidate line that gets past the earlier checks when the check holds sets
  the flag. Once the flag is set, the walk, the fallback pass and the link table leave
  the lines as they are.
\<close>

theorem item_budget_and_truncation:
  "(getReadableText hst opts = Inr res \<longrightarrow>
      stats_lines (res_stats res) = stats_items (res_stats res) \<and>
      (\<forall>q. maxItems (resolveConfig (hostLowerCase hst) opts) = Num q \<longrightarrow>
           int (stats_items (res_stats res)) \<le> \<lceil>q\<rceil>) \<and>
      (res_truncated res \<longrightarrow>
         geqNum (ofNat (stats_items (res_stats res)))
           (maxItems (resolveConfig (hostLowerCase hst) opts)))) \<and>
   (getReadableText hst opts = Inr res \<and> opt_maxItems opts = Some (Num (of_nat n)) \<and> 1 \<le> n \<longrightarrow>
      stats_items (res_stats res) \<le> n \<and> (res_truncated res \<longrightarrow> stats_items (res_stats res) = n)) \<and>
   (getReadableText hst opts = Inr res \<and> (opt_maxItems opts = None \<or> opt_maxItems opts = Some NaN) \<longrightarrow>
      \<not> res_truncated res) \<and>
   (truncated e \<longrightarrow> addLine cfg line linkRef e = e) \<and>
   (\<not> truncated e \<and> truncated (addLine cfg line linkRef e) \<longrightarrow>
      geqNum (ofNat (itemCount e)) (maxItems cfg) \<and> lines (addLine cfg line linkRef e) = lines e \<and>
      itemCount (addLine cfg line linkRef e) = itemCount e) \<and>
   (\<not> truncated e \<and> \<not> (shellMode e \<and> shellRemaining e \<le> 0) \<and> cleanedLine line \<noteq> [] \<and>
    \<not> (dedupeEnabled cfg \<and> \<not> startsWith (cleanedLine line) (js ''#'') \<and>
        fingerprintLine cfg (cleanedLine line) \<in> fingerprintSet e) \<and>
    geqNum (ofNat (itemCount e)) (maxItems cfg) \<longrightarrow>
      truncated (addLine cfg line linkRef e) \<and> lines (addLine cfg line linkRef e) = lines e) \<and>
   (truncated (fst s) \<longrightarrow>
      walk env h depth listDepth s = s \<and>
      lines (fst (fallbackPass env roots s)) = lines (fst s) \<and>
      lines (fst (linkTable cfg s)) = lines (fst s))"
proof -
  have a: "getReadableText hst opts = Inr res \<longrightarrow>
      stats_lines (res_stats res) = stats_items (res_stats res) \<and>
      (\<forall>q. maxItems (resolveConfig (hostLowerCase hst) opts) = Num q \<longrightarrow>
           int (stats_items (res_stats res)) \<le> \<lceil>q\<rceil>) \<and>
      (res_truncated res \<longrightarrow>
         geqNum (ofNat (stats_items (res_stats res)))
           (maxItems (resolveConfig (hostLowerCase hst) opts)))"
    using result_budget [of hst opts res] by blast
  have a2: "getReadableText hst opts = Inr res \<and> opt_maxItems opts = Some (Num (of_nat n)) \<and> 1 \<le> n \<longrightarrow>
      stats_items (res_stats res) \<le> n \<and> (res_truncated res \<longrightarrow> stats_items (res_stats res) = n)"
    using result_whole_cap [of hst opts res n] by blast
  have a3: "getReadableText hst opts = Inr res \<and>
      (opt_maxItems opts = None \<or> opt_maxItems opts = Some NaN) \<longrightarrow> \<not> res_truncated res"
    using result_no_cap [of hst opts res] by blast
  have b: "truncated e \<longrightarrow> addLine cfg line linkRef e = e"
    by (simp add: addLine_truncated)
  have c: "\<not> truncated e \<and> truncated (addLine cfg line linkRef e) \<longrightarrow>
      geqNum (ofNat (itemCount e)) (maxItems cfg) \<and> lines (addLine cfg line linkRef e) = lines e \<and>
      itemCount (addLine cfg line linkRef e) = itemCount e"
    using addLine_cases [of cfg line linkRef e] by auto
  have d: "\<not> truncated e \<and> \<not> (shellMode e \<and> shellRemaining e \<le> 0) \<and> cleanedLine line \<noteq> [] \<and>
    \<not> (dedupeEnabled cfg \<and> \<not> startsWith (cleanedLine line) (js ''#'') \<and>
        fingerprintLine cfg (cleanedLine line) \<in> fingerprintSet e) \<and>
    geqNum (ofNat (itemCount e)) (maxItems cfg) \<longrightarrow>
      truncated (addLine cfg line linkRef e) \<and> lines (addLine cfg line linkRef e) = lines e"
    using addLine_sets_flag [where e = e and line = line and cfg = cfg and linkRef = linkRef] by auto
  have f: "truncated (fst s) \<longrightarrow>
      walk env h depth listDepth s = s \<and>
      lines (fst (fallbackPass env roots s)) = lines (fst s) \<and>
      lines (fst (linkTable cfg s)) = lines (fst s)"
    using frozen_passes(1) [of s env roots] frozen_passes(2) [of s cfg] frozen_passes(3) [of s env h depth listDepth]
    by blast
  show ?thesis using a a2 a3 b c d f by blast
qed

theorem item_budget_witness:
  "getReadableText (hostOf budgetDoc) budgetOptions =
     Inr \<lparr> res_text = js ''one'', res_truncated = True,
           res_stats = \<lparr> stats_lines = 1, stats_maxDepth = Num 6, stats_items = 1 \<rparr>,
           res_links = [(js ''L1'', js ''https://x/'')] \<rparr> \<and>
   opt_maxItems budgetOptions = Some (Num (of_nat 1)) \<and>
   maxItems (resolveConfig lowerAscii budgetOptions) = Num 1 \<and>
   geqNum (ofNat 1) (maxItems (resolveConfig lowerAscii budgetOptions)) \<and>
   opt_maxItems noOptions = None \<and>
   getReadableText (hostOf budgetDoc) noOptions =
     Inr \<lparr> res_text = js ''one'' @ [newline] @ js ''two'' @ [newline] @ js ''- @L1 more'' @ [newline] @
                        js ''### Links'' @ [newline] @ js ''@L1 https://x/'',
           res_truncated = False,
           res_stats = \<lparr> stats_lines = 5, stats_maxDepth = Num 6, stats_items = 5 \<rparr>,
           res_links = [(js ''L1'', js ''https://x/'')] \<rparr> \<and>
   \<not> truncated (initEmitter\<lparr>itemCount := 1\<rparr>) \<and>
   truncated (addLine (resolveConfig lowerAscii budgetOptions) (js ''two'') None (initEmitter\<lparr>itemCount := 1\<rparr>)) \<and>
   lines (addLine (resolveConfig lowerAscii budgetOptions) (js ''two'') None (initEmitter\<lparr>itemCount := 1\<rparr>)) = [] \<and>
   addLine (resolveConfig lowerAscii budgetOptions) (js ''two'') None (initEmitter\<lparr>truncated := True\<rparr>) =
     initEmitter\<lparr>truncated := True\<rparr> \<and>
   lines (fst (linkTable (resolveConfig lowerAscii budgetOptions)
                 (initEmitter\<lparr>truncated := True\<rparr>, snd (registerLink (js ''https://x/'') initRegistry)))) = []"
proof -
  let ?cfg = "resolveConfig lowerAscii budgetOptions"
  let ?res = "\<lparr> res_text = js ''one'', res_truncated = True,
           res_stats = \<lparr> stats_lines = 1, stats_maxDepth = Num 6, stats_items = 1 \<rparr>,
           res_links = [(js ''L1'', js ''https://x/'')] \<rparr>"
  let ?full = "\<lparr> res_text = js ''one'' @ [newline] @ js ''two'' @ [newline] @ js ''- @L1 more'' @ [newline] @
                        js ''### Links'' @ [newline] @ js ''@L1 https://x/'',
           res_truncated = False,
           res_stats = \<lparr> stats_lines = 5, stats_maxDepth = Num 6, stats_items = 5 \<rparr>,
           res_links = [(js ''L1'', js ''https://x/'')] \<rparr>"
  let ?e1 = "initEmitter\<lparr>itemCount := 1\<rparr>"
  let ?e2 = "initEmitter\<lparr>truncated := True\<rparr>"
  let ?s = "(?e2, snd (registerLink (js ''https://x/'') initRegistry))"
  have ev: "getReadableText (hostOf budgetDoc) budgetOptions = Inr ?res"
    by code_simp
  have ev0: "getReadableText (hostOf budgetDoc) noOptions = Inr ?full"
    by code_simp
  have o: "opt_maxItems budgetOptions = Some (Num (of_nat 1))" "opt_maxItems noOptions = None"
    by (simp_all add: budgetOptions_def noOptions_def)
  have m: "maxItems ?cfg = Num 1"
    by (simp add: budgetOptions_def noOptions_def resolveConfig_def atLeastNum_def mathMax_def)
  have lc: "hostLowerCase (hostOf budgetDoc) = lowerAscii"
    by (simp add: hostOf_def)
  have h1: "\<not> truncated ?e1 \<and> \<not> (shellMode ?e1 \<and> shellRemaining ?e1 \<le> 0) \<and>
            cleanedLine (js ''two'') \<noteq> [] \<and>
            \<not> (dedupeEnabled ?cfg \<and> \<not> startsWith (cleanedLine (js ''two'')) (js ''#'') \<and>
                fingerprintLine ?cfg (cleanedLine (js ''two'')) \<in> fingerprintSet ?e1) \<and>
            geqNum (ofNat (itemCount ?e1)) (maxItems ?cfg)"
    by code_simp
  have h2: "truncated ?e2" "truncated (fst ?s)" "lines ?e1 = []" "lines (fst ?s) = []"
    by (simp_all add: initEmitter_def)
  note t1 = item_budget_and_truncation [where hst = "hostOf budgetDoc" and opts = budgetOptions
      and res = ?res and n = 1 and e = ?e1 and cfg = ?cfg and line = "js ''two''" and linkRef = None
      and s = ?s]
  note t2 = item_budget_and_truncation [where e = ?e2 and cfg = ?cfg and line = "js ''two''"
      and linkRef = None]
  note t3 = item_budget_and_truncation [where hst = "hostOf budgetDoc" and opts = noOptions
      and res = ?full]
  have a: "geqNum (ofNat 1) (maxItems ?cfg)"
    using t1 ev lc by simp
  have a0: "\<not> res_truncated ?full" using t3 ev0 o(2) by blast
  have b: "truncated (addLine ?cfg (js ''two'') None ?e1) \<and>
           lines (addLine ?cfg (js ''two'') None ?e1) = []"
    using t1 h1 h2(3) by metis
  have c: "addLine ?cfg (js ''two'') None ?e2 = ?e2" using t2 h2(1) by blast
  have d: "lines (fst (linkTable ?cfg ?s)) = []" using t1 h2(2,4) by metis
  show ?thesis using ev ev0 o m a b c d h1 by blast
qed


subsection \<open>Link references\<close>

lemma digitsToNumber_snoc: "digitsToNumber (ds @ [d]) = digitsToNumber ds * 10 + nat (d - 48)"
  by (simp add: digitsToNumber_def)

lemma digitsToNumber_numToString: "digitsToNumber (numToString n) = n"
proof (induction n rule: numToString.induct)
  case (1 n)
  show ?case
  proof (cases "n < 10")
    case True
    then show ?thesis by (simp add: numToString.simps [of n] digitsToNumber_def)
  next
    case False
    then have "digitsToNumber (numToString (n div 10)) = n div 10" using 1 by simp
    then show ?thesis
      using False by (simp add: numToString.simps [of n] digitsToNumber_snoc)
  qed
qed

lemma refIds_numbers: "map (\<lambda>ref. digitsToNumber (drop 1 ref)) (refIds n) = [1..<Suc n]"
proof -
  have "map (\<lambda>ref. digitsToNumber (drop 1 ref)) (refIds n) = map Suc [0..<n]"
    by (simp add: refIds_def js_def digitsToNumber_numToString comp_def)
  then show ?thesis by (simp add: map_Suc_upt)
qed

lemma refIds_distinct: "distinct (refIds n)"
proof -
  have "distinct (map (\<lambda>ref. digitsToNumber (drop 1 ref)) (refIds n))"
    unfolding refIds_numbers by simp
  then show ?thesis by (simp add: distinct_map)
qed

lemma registerAll_step: "registerAll (href # hrefs) r = registerAll hrefs (snd (registerLink href r))"
  by (simp add: registerAll_def)

lemma registerAll_ok: "registryOk r \<Longrightarrow> registryOk (registerAll hrefs r)"
proof (induction hrefs arbitrary: r)
  case Nil
  then show ?case by (simp add: registerAll_def)
next
  case (Cons href hrefs)
  show ?case
    unfolding registerAll_step
    by (rule Cons.IH [OF registerLink_ok [OF Cons.prems]])
qed

lemma registerAll_keeps:
  "registryOk r \<Longrightarrow> linkMap r k = Some v \<Longrightarrow> linkMap (registerAll hrefs r) k = Some v"
proof (induction hrefs arbitrary: r)
  case Nil
  then show ?case by (simp add: registerAll_def)
next
  case (Cons href hrefs)
  show ?case
    unfolding registerAll_step
    by (rule Cons.IH [OF registerLink_ok [OF Cons.prems(1)] registerLink_keeps [OF Cons.prems]])
qed

lemma registryOk_facts:
  assumes "registryOk r"
  shows "map fst (linkList r) = refIds (length (linkList r)) \<and>
         distinct (map snd (linkList r)) \<and> distinct (map fst (linkList r)) \<and>
         map (\<lambda>entry. digitsToNumber (drop 1 (fst entry))) (linkList r) = [1..<Suc (length (linkList r))]"
proof -
  have a: "map fst (linkList r) = refIds (length (linkList r))" and b: "distinct (map snd (linkList r))"
    using assms by (simp_all add: registryOk_def)
  have c: "distinct (map fst (linkList r))" unfolding a by (rule refIds_distinct)
  have "map (\<lambda>entry. digitsToNumber (drop 1 (fst entry))) (linkList r) =
        map (\<lambda>ref. digitsToNumber (drop 1 ref)) (map fst (linkList r))"
    by (simp add: comp_def)
  also have "\<dots> = [1..<Suc (length (linkList r))]" unfolding a by (rule refIds_numbers)
  finally show ?thesis using a b c by blast
qed

lemma result_registry:
  assumes "getReadableText hst opts = Inr res"
  shows "\<exists>r. registryOk r \<and> res_links res = linkList r"
proof -
  obtain roots shellRoots cfg where
    r: "res = assemble cfg (runPasses (mkEnv hst cfg roots shellRoots) roots shellRoots)"
    using assms by (rule getReadableText_Inr)
  have "registryOk (snd (runPasses (mkEnv hst cfg roots shellRoots) roots shellRoots))"
    using reaches_ok [OF reaches_runPasses [of "mkEnv hst cfg roots shellRoots" roots shellRoots]]
    by (simp add: registryOk_init)
  then show ?thesis using r by (auto simp: assemble_def)
qed

lemma registerLink_again:
  assumes ok: "registryOk r" and nr: "\<not> rejectedHref (trim href)"
  shows "\<exists>ref. (ref, trim href) \<in> set (linkList (snd (registerLink href r))) \<and>
           fst (registerLink href r) = Some (js ''@'' @ ref) \<and>
           fst (registerLink href (registerAll later (snd (registerLink href r)))) = Some (js ''@'' @ ref)"
proof -
  let ?r1 = "snd (registerLink href r)"
  have ok1: "registryOk ?r1" by (rule registerLink_ok [OF ok])
  have "trim href \<in> snd ` set (linkList ?r1)" by (rule registerLink_listed [OF ok nr])
  then obtain ref where m: "(ref, trim href) \<in> set (linkList ?r1)" by force
  have l1: "linkMap ?r1 (trim href) = Some ref" using m registryOk_lookup [OF ok1] by blast
  have a: "fst (registerLink href r) = Some (js ''@'' @ ref)"
    using registerLink_result [OF ok, of href] nr l1 by simp
  have ok2: "registryOk (registerAll later ?r1)" by (rule registerAll_ok [OF ok1])
  have l2: "linkMap (registerAll later ?r1) (trim href) = Some ref"
    by (rule registerAll_keeps [OF ok1 l1])
  have b: "fst (registerLink href (registerAll later ?r1)) = Some (js ''@'' @ ref)"
    using registerLink_found [OF ok2 l2 nr] by simp
  show ?thesis using m a b by blast
qed

lemma registerLink_first:
  assumes ok: "registryOk r" and nr: "\<not> rejectedHref (trim href)"
    and new: "trim href \<notin> snd ` set (linkList r)"
  shows "linkList (snd (registerLink href r)) =
           linkList r @ [(js ''L'' @ numToString (Suc (length (linkList r))), trim href)]"
proof -
  have "linkMap r (trim href) = None"
  proof (cases "linkMap r (trim href)")
    case (Some v)
    then have "(v, trim href) \<in> set (linkList r)" using registryOk_lookup [OF ok] by blast
    then show ?thesis using new by force
  qed simp
  then show ?thesis
    using ok by (simp add: registerLink_fresh [OF ok _ nr] registryOk_def)
qed

text \<open>
  Claim C6. The link list of a result holds the reference ids \<^verbatim>\<open>L1\<close>, ..., \<^verbatim>\<open>Ln\<close> in this
  order (the numbers 1, ..., n, so the ids are strictly increasing and distinct), and no
  URL twice. The same holds after any sequence of registrations from the empty registry;
  there, a URL that is not rejected and not yet listed is appended with the next id, a
  registration of a URL that is not rejected returns the reference of the URL's entry in
  the list, and every later registration of the same URL returns the same reference.
  The URL is the string after \<^verbatim>\<open>trim\<close>.
\<close>

theorem link_references:
  "(getReadableText hst opts = Inr res \<longrightarrow>
      map fst (res_links res) = refIds (length (res_links res)) \<and>
      distinct (map snd (res_links res)) \<and> distinct (map fst (res_links res)) \<and>
      map (\<lambda>entry. digitsToNumber (drop 1 (fst entry))) (res_links res) =
        [1..<Suc (length (res_links res))]) \<and>
   map fst (linkList (registerAll hrefs initRegistry)) =
     refIds (length (linkList (registerAll hrefs initRegistry))) \<and>
   distinct (map snd (linkList (registerAll hrefs initRegistry))) \<and>
   distinct (map fst (linkList (registerAll hrefs initRegistry))) \<and>
   (\<not> rejectedHref (trim href) \<and> trim href \<notin> snd ` set (linkList (registerAll hrefs initRegistry)) \<longrightarrow>
      linkList (snd (registerLink href (registerAll hrefs initRegistry))) =
        linkList (registerAll hrefs initRegistry) @
          [(js ''L'' @ numToString (Suc (length (linkList (registerAll hrefs initRegistry)))), trim href)]) \<and>
   (\<not> rejectedHref (trim href) \<longrightarrow>
      (\<exists>ref. (ref, trim href) \<in> set (linkList (snd (registerLink href (registerAll hrefs initRegistry)))) \<and>
         fst (registerLink href (registerAll hrefs initRegistry)) = Some (js ''@'' @ ref) \<and>
         fst (registerLink href
                (registerAll later (snd (registerLink href (registerAll hrefs initRegistry))))) =
           Some (js ''@'' @ ref)))"
proof -
  let ?r = "registerAll hrefs initRegistry"
  have ok: "registryOk ?r" by (rule registerAll_ok [OF registryOk_init])
  have a: "getReadableText hst opts = Inr res \<longrightarrow>
      map fst (res_links res) = refIds (length (res_links res)) \<and>
      distinct (map snd (res_links res)) \<and> distinct (map fst (res_links res)) \<and>
      map (\<lambda>entry. digitsToNumber (drop 1 (fst entry))) (res_links res) =
        [1..<Suc (length (res_links res))]"
  proof
    assume "getReadableText hst opts = Inr res"
    then obtain r where r: "registryOk r" "res_links res = linkList r"
      using result_registry by blast
    show "map fst (res_links res) = refIds (length (res_links res)) \<and>
      distinct (map snd (res_links res)) \<and> distinct (map fst (res_links res)) \<and>
      map (\<lambda>entry. digitsToNumber (drop 1 (fst entry))) (res_links res) =
        [1..<Suc (length (res_links res))]"
      unfolding r(2) by (rule registryOk_facts [OF r(1)])
  qed
  have b: "map fst (linkList ?r) = refIds (length (linkList ?r)) \<and>
           distinct (map snd (linkList ?r)) \<and> distinct (map fst (linkList ?r))"
    using registryOk_facts [OF ok] by blast
  have c: "\<not> rejectedHref (trim href) \<and> trim href \<notin> snd ` set (linkList ?r) \<longrightarrow>
      linkList (snd (registerLink href ?r)) =
        linkList ?r @ [(js ''L'' @ numToString (Suc (length (linkList ?r))), trim href)]"
    using registerLink_first [OF ok] by blast
  have d: "\<not> rejectedHref (trim href) \<longrightarrow>
      (\<exists>ref. (ref, trim href) \<in> set (linkList (snd (registerLink href ?r))) \<and>
         fst (registerLink href ?r) = Some (js ''@'' @ ref) \<and>
         fst (registerLink href (registerAll later (snd (registerLink href ?r)))) =
           Some (js ''@'' @ ref))"
    using registerLink_again [OF ok] by blast
  show ?thesis using a b c d by blast
qed

theorem link_references_witness:
  "getReadableText (hostOf linksDoc) noOptions =
     Inr \<lparr> res_text = js ''- @L1 first'' @ [newline] @ js ''- @L2 second'' @ [newline] @
                        js ''- @L1 again'' @ [newline] @ js ''### Links'' @ [newline] @
                        js ''@L1 https://a/'' @ [newline] @ js ''@L2 https://b/'',
           res_truncated = False,
           res_stats = \<lparr> stats_lines = 6, stats_maxDepth = Num 6, stats_items = 6 \<rparr>,
           res_links = [(js ''L1'', js ''https://a/''), (js ''L2'', js ''https://b/'')] \<rparr> \<and>
   refIds 2 = [js ''L1'', js ''L2''] \<and>
   linkList (snd (registerLink (js '' https://c/'') (registerAll [js ''https://a/'', js ''https://b/''] initRegistry))) =
     [(js ''L1'', js ''https://a/''), (js ''L2'', js ''https://b/''), (js ''L3'', js ''https://c/'')] \<and>
   fst (registerLink (js '' https://a/ '') (registerAll [js ''https://a/'', js ''https://b/''] initRegistry)) =
     Some (js ''@L1'') \<and>
   fst (registerLink (js '' https://a/ '')
          (registerAll [js ''https://c/'']
             (snd (registerLink (js '' https://a/ '')
                     (registerAll [js ''https://a/'', js ''https://b/''] initRegistry))))) =
     Some (js ''@L1'')"
proof -
  let ?res = "\<lparr> res_text = js ''- @L1 first'' @ [newline] @ js ''- @L2 second'' @ [newline] @
                        js ''- @L1 again'' @ [newline] @ js ''### Links'' @ [newline] @
                        js ''@L1 https://a/'' @ [newline] @ js ''@L2 https://b/'',
           res_truncated = False,
           res_stats = \<lparr> stats_lines = 6, stats_maxDepth = Num 6, stats_items = 6 \<rparr>,
           res_links = [(js ''L1'', js ''https://a/''), (js ''L2'', js ''https://b/'')] \<rparr>"
  let ?r = "registerAll [js ''https://a/'', js ''https://b/''] initRegistry"
  have ev: "getReadableText (hostOf linksDoc) noOptions = Inr ?res"
    by code_simp
  have h1: "\<not> rejectedHref (trim (js '' https://c/'')) \<and>
            trim (js '' https://c/'') \<notin> snd ` set (linkList ?r)"
    by code_simp
  have h2: "\<not> rejectedHref (trim (js '' https://a/ ''))"
    by code_simp
  have e1: "linkList ?r @ [(js ''L'' @ numToString (Suc (length (linkList ?r))), trim (js '' https://c/''))] =
            [(js ''L1'', js ''https://a/''), (js ''L2'', js ''https://b/''), (js ''L3'', js ''https://c/'')]"
    by code_simp
  have e2: "fst (registerLink (js '' https://a/ '') ?r) = Some (js ''@L1'')"
    by code_simp
  note t1 = link_references [where hst = "hostOf linksDoc" and opts = noOptions and res = ?res
      and hrefs = "[js ''https://a/'', js ''https://b/'']" and href = "js '' https://c/''"]
  note t2 = link_references [where hrefs = "[js ''https://a/'', js ''https://b/'']"
      and href = "js '' https://a/ ''" and later = "[js ''https://c/'']"]
  have "map fst (res_links ?res) = refIds (length (res_links ?res))"
    using t1 ev by blast
  then have a: "refIds 2 = [js ''L1'', js ''L2'']"
    by (simp add: numeral_2_eq_2)
  have b: "linkList (snd (registerLink (js '' https://c/'') ?r)) =
     [(js ''L1'', js ''https://a/''), (js ''L2'', js ''https://b/''), (js ''L3'', js ''https://c/'')]"
    using t1 h1 e1 by metis
  have c: "fst (registerLink (js '' https://a/ '')
          (registerAll [js ''https://c/''] (snd (registerLink (js '' https://a/ '') ?r)))) =
     Some (js ''@L1'')"
    using t2 h2 e2 by metis
  show ?thesis using ev a b c e2 by blast
qed


subsection \<open>The links of the result\<close>

lemma registerAnchors_grows: "\<exists>new. linkList (registerAnchors anchors r) = linkList r @ new"
  using reaches_links_grow [OF reaches_registerAnchors [where e = initEmitter and r = r and anchors = anchors]] by simp

lemma registerAnchors_listed:
  assumes "registryOk r" "anchor \<in> set anchors" "anchorHref anchor \<noteq> []"
    "\<not> rejectedHref (trim (anchorHref anchor))"
  shows "trim (anchorHref anchor) \<in> snd ` set (linkList (registerAnchors anchors r))"
  using assms
proof (induction anchors arbitrary: r)
  case Nil
  then show ?case by simp
next
  case (Cons a anchors)
  let ?r1 = "if anchorHref a \<noteq> [] then snd (registerLink (anchorHref a) r) else r"
  have ok1: "registryOk ?r1" using Cons.prems(1) by (simp add: registerLink_ok)
  show ?case
  proof (cases "anchor = a")
    case True
    have "trim (anchorHref anchor) \<in> snd ` set (linkList ?r1)"
      using True Cons.prems(3) registerLink_listed [OF Cons.prems(1,4)] by simp
    moreover obtain new where "linkList (registerAnchors anchors ?r1) = linkList ?r1 @ new"
      using registerAnchors_grows by blast
    ultimately have "trim (anchorHref anchor) \<in> snd ` set (linkList (registerAnchors anchors ?r1))"
      by auto
    then show ?thesis by simp
  next
    case False
    then have "anchor \<in> set anchors" using Cons.prems(2) by simp
    then have "trim (anchorHref anchor) \<in> snd ` set (linkList (registerAnchors anchors ?r1))"
      using Cons.IH [OF ok1] Cons.prems(3,4) by blast
    then show ?thesis by simp
  qed
qed

lemma walked_ok: "registryOk (snd (walked env roots shellRoots))"
  using reaches_ok [OF reaches_walked [of env roots shellRoots]] by (simp add: registryOk_init)

lemma swept_links:
  "\<exists>new. linkList (snd (swept env roots shellRoots)) =
          linkList (sweepLinks (envConfig env) roots (snd (walked env roots shellRoots))) @ new"
  using reaches_links_grow [OF reaches_sweepShellLinks
      [of "envConfig env" initEmitter "sweepLinks (envConfig env) roots (snd (walked env roots shellRoots))" shellRoots]]
  by (simp add: swept_def Let_def)

lemma walked_swept_links:
  "\<exists>new. linkList (snd (swept env roots shellRoots)) = linkList (snd (walked env roots shellRoots)) @ new"
proof -
  obtain n1 where a: "linkList (sweepLinks (envConfig env) roots (snd (walked env roots shellRoots))) =
      linkList (snd (walked env roots shellRoots)) @ n1"
    using reaches_links_grow [OF reaches_sweepLinks [of "envConfig env" "walked env roots shellRoots" roots]]
    by auto
  obtain n2 where "linkList (snd (swept env roots shellRoots)) =
          linkList (sweepLinks (envConfig env) roots (snd (walked env roots shellRoots))) @ n2"
    using swept_links by blast
  then show ?thesis using a by simp
qed

lemma swept_runPasses_links:
  "\<exists>new. linkList (snd (runPasses env roots shellRoots)) = linkList (snd (swept env roots shellRoots)) @ new"
  by (rule reaches_links_grow [OF reaches_after_swept])

lemma swept_anchor:
  assumes "linksEnabled (envConfig env)" "anchor \<in> set (rootAnchors roots)" "anchorHref anchor \<noteq> []"
    "\<not> rejectedHref (trim (anchorHref anchor))"
  shows "trim (anchorHref anchor) \<in> snd ` set (linkList (snd (runPasses env roots shellRoots)))"
proof -
  have ne: "roots \<noteq> []" using assms(2) by (auto simp: rootAnchors_def)
  have "trim (anchorHref anchor) \<in>
          snd ` set (linkList (sweepLinks (envConfig env) roots (snd (walked env roots shellRoots))))"
    using registerAnchors_listed [OF walked_ok assms(2,3,4)] assms(1) ne
    by (simp add: sweepLinks_def)
  moreover obtain n1 where "linkList (snd (swept env roots shellRoots)) =
          linkList (sweepLinks (envConfig env) roots (snd (walked env roots shellRoots))) @ n1"
    using swept_links by blast
  moreover obtain n2 where
    "linkList (snd (runPasses env roots shellRoots)) = linkList (snd (swept env roots shellRoots)) @ n2"
    using swept_runPasses_links by blast
  ultimately show ?thesis by auto
qed

lemma selected_linksEnabled:
  assumes "selectRoots hst (resolveConfig (hostLowerCase hst) opts) = Inr (roots, shellRoots, cfg)"
  shows "linksEnabled cfg = (opt_links opts \<noteq> Some False)"
proof -
  have "linksEnabled cfg = linksEnabled (resolveConfig (hostLowerCase hst) opts)"
    using selectRoots_config [OF assms] by (auto simp: widenForArticle_other)
  then show ?thesis by (simp add: resolveConfig_def)
qed

lemma result_anchor:
  assumes g: "getReadableText hst opts = Inr res" and en: "opt_links opts \<noteq> Some False"
    and an: "anchor \<in> set (rootAnchors (mainRoots hst opts))" "anchorHref anchor \<noteq> []"
      "\<not> rejectedHref (trim (anchorHref anchor))"
  shows "trim (anchorHref anchor) \<in> snd ` set (res_links res)"
proof -
  obtain roots shellRoots cfg where
    s: "selectRoots hst (resolveConfig (hostLowerCase hst) opts) = Inr (roots, shellRoots, cfg)" and
    r: "res = assemble cfg (runPasses (mkEnv hst cfg roots shellRoots) roots shellRoots)"
    using g by (rule getReadableText_Inr)
  have m: "mainRoots hst opts = roots" using s by (simp add: mainRoots_def)
  have l: "linksEnabled (envConfig (mkEnv hst cfg roots shellRoots))"
    using selected_linksEnabled [OF s] en by (simp add: envConfig_mkEnv)
  show ?thesis
    using swept_anchor [OF l, of anchor roots shellRoots] an m r by (simp add: assemble_def)
qed

lemma result_links:
  assumes g: "getReadableText hst opts = Inr res"
  shows "\<exists>roots shellRoots cfg.
           selectRoots hst (resolveConfig (hostLowerCase hst) opts) = Inr (roots, shellRoots, cfg) \<and>
           res_links res = linkList (snd (runPasses (mkEnv hst cfg roots shellRoots) roots shellRoots)) \<and>
           (\<exists>new. res_links res =
                   linkList (snd (swept (mkEnv hst cfg roots shellRoots) roots shellRoots)) @ new) \<and>
           (\<exists>new. linkList (snd (swept (mkEnv hst cfg roots shellRoots) roots shellRoots)) =
                   linkList (snd (walked (mkEnv hst cfg roots shellRoots) roots shellRoots)) @ new)"
proof -
  obtain roots shellRoots cfg where
    s: "selectRoots hst (resolveConfig (hostLowerCase hst) opts) = Inr (roots, shellRoots, cfg)" and
    r: "res = assemble cfg (runPasses (mkEnv hst cfg roots shellRoots) roots shellRoots)"
    using g by (rule getReadableText_Inr)
  have a: "res_links res = linkList (snd (runPasses (mkEnv hst cfg roots shellRoots) roots shellRoots))"
    using r by (simp add: assemble_def)
  have b: "\<exists>new. res_links res =
                   linkList (snd (swept (mkEnv hst cfg roots shellRoots) roots shellRoots)) @ new"
    unfolding a by (rule swept_runPasses_links)
  have c: "\<exists>new. linkList (snd (swept (mkEnv hst cfg roots shellRoots) roots shellRoots)) =
                   linkList (snd (walked (mkEnv hst cfg roots shellRoots) roots shellRoots)) @ new"
    by (rule walked_swept_links)
  show ?thesis using s a b c by blast
qed

text \<open>
  Claim C10. The link list of the result is the list of the registry when the call ends,
  and nothing is ever taken out of it: the links registered during the walk are a prefix
  of the list after the anchor sweeps, which is a prefix of the list of the result. With
  links enabled, the URL of every anchor with a \<^verbatim>\<open>href\<close> under the chosen roots is in the
  result, unless \<^verbatim>\<open>registerLink\<close> rejects it. A truncated call appends no link table, so
  a result can list a URL whose reference is nowhere in its text: the two paragraphs and
  the link read with \<^verbatim>\<open>maxItems = 1\<close> are such a call.
\<close>

theorem result_lists_every_link:
  "(getReadableText hst opts = Inr res \<longrightarrow>
      (\<exists>roots shellRoots cfg.
           selectRoots hst (resolveConfig (hostLowerCase hst) opts) = Inr (roots, shellRoots, cfg) \<and>
           res_links res = linkList (snd (runPasses (mkEnv hst cfg roots shellRoots) roots shellRoots)) \<and>
           (\<exists>new. res_links res =
                   linkList (snd (swept (mkEnv hst cfg roots shellRoots) roots shellRoots)) @ new) \<and>
           (\<exists>new. linkList (snd (swept (mkEnv hst cfg roots shellRoots) roots shellRoots)) =
                   linkList (snd (walked (mkEnv hst cfg roots shellRoots) roots shellRoots)) @ new))) \<and>
   (getReadableText hst opts = Inr res \<and> opt_links opts \<noteq> Some False \<and>
    anchor \<in> set (rootAnchors (mainRoots hst opts)) \<and> anchorHref anchor \<noteq> [] \<and>
    \<not> rejectedHref (trim (anchorHref anchor)) \<longrightarrow>
      trim (anchorHref anchor) \<in> snd ` set (res_links res)) \<and>
   (truncated (fst s) \<longrightarrow> linkTable cfg1 s = s) \<and>
   (\<exists>res1. getReadableText (hostOf budgetDoc) budgetOptions = Inr res1 \<and>
      res_links res1 = [(js ''L1'', js ''https://x/'')] \<and>
      \<not> jsIncludes (res_text res1) (js ''L1'') \<and> \<not> jsIncludes (res_text res1) (js ''https://x/''))"
proof -
  have a: "getReadableText hst opts = Inr res \<longrightarrow>
      (\<exists>roots shellRoots cfg.
           selectRoots hst (resolveConfig (hostLowerCase hst) opts) = Inr (roots, shellRoots, cfg) \<and>
           res_links res = linkList (snd (runPasses (mkEnv hst cfg roots shellRoots) roots shellRoots)) \<and>
           (\<exists>new. res_links res =
                   linkList (snd (swept (mkEnv hst cfg roots shellRoots) roots shellRoots)) @ new) \<and>
           (\<exists>new. linkList (snd (swept (mkEnv hst cfg roots shellRoots) roots shellRoots)) =
                   linkList (snd (walked (mkEnv hst cfg roots shellRoots) roots shellRoots)) @ new))"
    using result_links [of hst opts res] by blast
  have b: "getReadableText hst opts = Inr res \<and> opt_links opts \<noteq> Some False \<and>
    anchor \<in> set (rootAnchors (mainRoots hst opts)) \<and> anchorHref anchor \<noteq> [] \<and>
    \<not> rejectedHref (trim (anchorHref anchor)) \<longrightarrow>
      trim (anchorHref anchor) \<in> snd ` set (res_links res)"
    using result_anchor [of hst opts res anchor] by blast
  have c: "truncated (fst s) \<longrightarrow> linkTable cfg1 s = s"
    by (simp add: linkTable_def)
  have ev: "getReadableText (hostOf budgetDoc) budgetOptions =
     Inr \<lparr> res_text = js ''one'', res_truncated = True,
           res_stats = \<lparr> stats_lines = 1, stats_maxDepth = Num 6, stats_items = 1 \<rparr>,
           res_links = [(js ''L1'', js ''https://x/'')] \<rparr>"
    by code_simp
  have n: "\<not> jsIncludes (js ''one'') (js ''L1'') \<and> \<not> jsIncludes (js ''one'') (js ''https://x/'')"
    by code_simp
  have d: "\<exists>res1. getReadableText (hostOf budgetDoc) budgetOptions = Inr res1 \<and>
      res_links res1 = [(js ''L1'', js ''https://x/'')] \<and>
      \<not> jsIncludes (res_text res1) (js ''L1'') \<and> \<not> jsIncludes (res_text res1) (js ''https://x/'')"
    using ev n by simp
  show ?thesis using a b c d by blast
qed

theorem result_lists_every_link_witness:
  "getReadableText (hostOf budgetDoc) budgetOptions =
     Inr \<lparr> res_text = js ''one'', res_truncated = True,
           res_stats = \<lparr> stats_lines = 1, stats_maxDepth = Num 6, stats_items = 1 \<rparr>,
           res_links = [(js ''L1'', js ''https://x/'')] \<rparr> \<and>
   tagged ''A'' [(js ''href'', js ''https://x/'')] [TextNode (js ''more'')]
     \<in> set (rootAnchors (mainRoots (hostOf budgetDoc) budgetOptions)) \<and>
   js ''https://x/'' \<in> snd ` set [(js ''L1'', js ''https://x/'')] \<and>
   linkTable (resolveConfig lowerAscii budgetOptions)
     (initEmitter\<lparr>truncated := True\<rparr>, snd (registerLink (js ''https://x/'') initRegistry)) =
     (initEmitter\<lparr>truncated := True\<rparr>, snd (registerLink (js ''https://x/'') initRegistry))"
proof -
  let ?res = "\<lparr> res_text = js ''one'', res_truncated = True,
           res_stats = \<lparr> stats_lines = 1, stats_maxDepth = Num 6, stats_items = 1 \<rparr>,
           res_links = [(js ''L1'', js ''https://x/'')] \<rparr>"
  let ?a = "tagged ''A'' [(js ''href'', js ''https://x/'')] [TextNode (js ''more'')]"
  let ?s = "(initEmitter\<lparr>truncated := True\<rparr>, snd (registerLink (js ''https://x/'') initRegistry))"
  have ev: "getReadableText (hostOf budgetDoc) budgetOptions = Inr ?res"
    by code_simp
  have h1: "opt_links budgetOptions \<noteq> Some False"
    by (simp add: budgetOptions_def noOptions_def)
  have h2: "?a \<in> set (rootAnchors (mainRoots (hostOf budgetDoc) budgetOptions))"
    by code_simp
  have h3: "anchorHref ?a \<noteq> [] \<and> \<not> rejectedHref (trim (anchorHref ?a))"
    by code_simp
  have h4: "trim (anchorHref ?a) = js ''https://x/''"
    by code_simp
  have h5: "truncated (fst ?s)" by (simp add: initEmitter_def)
  note t = result_lists_every_link [where hst = "hostOf budgetDoc" and opts = budgetOptions
      and res = ?res and anchor = ?a and s = ?s and ?cfg1.0 = "resolveConfig lowerAscii budgetOptions"]
  have "trim (anchorHref ?a) \<in> snd ` set (res_links ?res)"
    using t ev h1 h2 h3 by blast
  then have a: "js ''https://x/'' \<in> snd ` set [(js ''L1'', js ''https://x/'')]"
    unfolding h4 by simp
  have b: "linkTable (resolveConfig lowerAscii budgetOptions) ?s = ?s" using t h5 by blast
  show ?thesis using ev h2 a b by blast
qed


subsection \<open>Lines that start with a hash\<close>

lemma startsWith_nonempty: "startsWith t (js ''#'') \<Longrightarrow> t \<noteq> []"
  by (auto simp: startsWith_def js_def)

lemma pushFingerprint_fields:
  "lines (pushFingerprint cfg fp e) = lines e"
  "itemCount (pushFingerprint cfg fp e) = itemCount e"
  "truncated (pushFingerprint cfg fp e) = truncated e"
  "shellMode (pushFingerprint cfg fp e) = shellMode e"
  "shellRemaining (pushFingerprint cfg fp e) = shellRemaining e"
  by (simp_all add: pushFingerprint_def Let_def)

lemma addLine_appends:
  assumes "\<not> truncated e" "\<not> (shellMode e \<and> shellRemaining e \<le> 0)" "cleanedLine line \<noteq> []"
    "\<not> (dedupeEnabled cfg \<and> \<not> startsWith (cleanedLine line) (js ''#'') \<and>
        fingerprintLine cfg (cleanedLine line) \<in> fingerprintSet e)"
    "\<not> geqNum (ofNat (itemCount e)) (maxItems cfg)"
  shows "addLine cfg line linkRef e =
           (if dedupeEnabled cfg then pushFingerprint cfg (fingerprintLine cfg (cleanedLine line)) else id)
             (e\<lparr>lines := lines e @ [shownLine cfg line linkRef], itemCount := itemCount e + 1,
                shellRemaining := (if shellMode e then shellRemaining e - 1 else shellRemaining e)\<rparr>)"
  using assms by (auto simp: addLine_def cleanedLine_def shownLine_def Let_def)

lemma addLine_hash:
  assumes "\<not> truncated e" "\<not> (shellMode e \<and> shellRemaining e \<le> 0)"
    "startsWith (cleanedLine line) (js ''#'')" "\<not> geqNum (ofNat (itemCount e)) (maxItems cfg)"
  shows "lines (addLine cfg line linkRef e) = lines e @ [shownLine cfg line linkRef]"
    and "itemCount (addLine cfg line linkRef e) = itemCount e + 1"
    and "\<not> truncated (addLine cfg line linkRef e)"
    and "shellMode (addLine cfg line linkRef e) = shellMode e"
    and "shellRemaining (addLine cfg line linkRef e) =
           (if shellMode e then shellRemaining e - 1 else shellRemaining e)"
proof -
  have ne: "cleanedLine line \<noteq> []" by (rule startsWith_nonempty [OF assms(3)])
  have nd: "\<not> (dedupeEnabled cfg \<and> \<not> startsWith (cleanedLine line) (js ''#'') \<and>
        fingerprintLine cfg (cleanedLine line) \<in> fingerprintSet e)"
    using assms(3) by simp
  note a = addLine_appends [OF assms(1,2) ne nd assms(4), of linkRef]
  show "lines (addLine cfg line linkRef e) = lines e @ [shownLine cfg line linkRef]"
    unfolding a by (simp add: pushFingerprint_fields)
  show "itemCount (addLine cfg line linkRef e) = itemCount e + 1"
    unfolding a by (simp add: pushFingerprint_fields)
  show "\<not> truncated (addLine cfg line linkRef e)"
    unfolding a using assms(1) by (simp add: pushFingerprint_fields)
  show "shellMode (addLine cfg line linkRef e) = shellMode e"
    unfolding a by (simp add: pushFingerprint_fields)
  show "shellRemaining (addLine cfg line linkRef e) =
           (if shellMode e then shellRemaining e - 1 else shellRemaining e)"
    unfolding a by (simp add: pushFingerprint_fields)
qed

lemma addLine_hash_twice:
  assumes "\<not> truncated e" "\<not> (shellMode e \<and> shellRemaining e \<le> 1)"
    "startsWith (cleanedLine line) (js ''#'')" "\<not> geqNum (ofNat (itemCount e + 1)) (maxItems cfg)"
  shows "lines (addLine cfg line linkRef (addLine cfg line linkRef e)) =
           lines e @ [shownLine cfg line linkRef, shownLine cfg line linkRef]"
proof -
  have s: "\<not> (shellMode e \<and> shellRemaining e \<le> 0)" using assms(2) by auto
  have i: "\<not> geqNum (ofNat (itemCount e)) (maxItems cfg)"
    using assms(4) geqNum_Suc [of "itemCount e" "maxItems cfg"] by auto
  note h = addLine_hash [OF assms(1) s assms(3) i, of linkRef]
  have s1: "\<not> (shellMode (addLine cfg line linkRef e) \<and> shellRemaining (addLine cfg line linkRef e) \<le> 0)"
    using h(4,5) assms(2) by auto
  have i1: "\<not> geqNum (ofNat (itemCount (addLine cfg line linkRef e))) (maxItems cfg)"
    using h(2) assms(4) by simp
  show ?thesis
    using addLine_hash(1) [OF h(3) s1 assms(3) i1, of linkRef] h(1) by simp
qed

text \<open>
  Claim C9. \<^verbatim>\<open>addLine\<close> takes a candidate line for a heading when its cleaned text starts
  with \<^verbatim>\<open>#\<close>, whatever element it comes from. Such a line is appended whatever the
  fingerprint set holds, as long as the call is not truncated, the shell budget is not
  used up and the item budget is not reached; so the same line offered twice in a row is
  appended twice. Two leaf elements with the text \<^verbatim>\<open>#news\<close> give two lines, two with
  the text \<^verbatim>\<open>news\<close> give one.
\<close>

theorem hash_lines_bypass_dedup:
  "(\<not> truncated e \<and> \<not> (shellMode e \<and> shellRemaining e \<le> 0) \<and>
    startsWith (cleanedLine line) (js ''#'') \<and> \<not> geqNum (ofNat (itemCount e)) (maxItems cfg) \<longrightarrow>
      lines (addLine cfg line linkRef e) = lines e @ [shownLine cfg line linkRef]) \<and>
   (\<not> truncated e \<and> \<not> (shellMode e \<and> shellRemaining e \<le> 1) \<and>
    startsWith (cleanedLine line) (js ''#'') \<and> \<not> geqNum (ofNat (itemCount e + 1)) (maxItems cfg) \<longrightarrow>
      lines (addLine cfg line linkRef (addLine cfg line linkRef e)) =
        lines e @ [shownLine cfg line linkRef, shownLine cfg line linkRef]) \<and>
   getReadableText (hostOf hashDoc) noOptions =
     Inr \<lparr> res_text = js ''#news'' @ [newline] @ js ''#news'', res_truncated = False,
           res_stats = \<lparr> stats_lines = 2, stats_maxDepth = Num 6, stats_items = 2 \<rparr>,
           res_links = [] \<rparr> \<and>
   getReadableText (hostOf plainDoc) noOptions =
     Inr \<lparr> res_text = js ''news'', res_truncated = False,
           res_stats = \<lparr> stats_lines = 1, stats_maxDepth = Num 6, stats_items = 1 \<rparr>,
           res_links = [] \<rparr>"
proof -
  have a: "\<not> truncated e \<and> \<not> (shellMode e \<and> shellRemaining e \<le> 0) \<and>
    startsWith (cleanedLine line) (js ''#'') \<and> \<not> geqNum (ofNat (itemCount e)) (maxItems cfg) \<longrightarrow>
      lines (addLine cfg line linkRef e) = lines e @ [shownLine cfg line linkRef]"
    using addLine_hash(1) [of e line cfg linkRef] by blast
  have b: "\<not> truncated e \<and> \<not> (shellMode e \<and> shellRemaining e \<le> 1) \<and>
    startsWith (cleanedLine line) (js ''#'') \<and> \<not> geqNum (ofNat (itemCount e + 1)) (maxItems cfg) \<longrightarrow>
      lines (addLine cfg line linkRef (addLine cfg line linkRef e)) =
        lines e @ [shownLine cfg line linkRef, shownLine cfg line linkRef]"
    using addLine_hash_twice [of e line cfg linkRef] by blast
  have c: "getReadableText (hostOf hashDoc) noOptions =
     Inr \<lparr> res_text = js ''#news'' @ [newline] @ js ''#news'', res_truncated = False,
           res_stats = \<lparr> stats_lines = 2, stats_maxDepth = Num 6, stats_items = 2 \<rparr>,
           res_links = [] \<rparr>"
    by code_simp
  have d: "getReadableText (hostOf plainDoc) noOptions =
     Inr \<lparr> res_text = js ''news'', res_truncated = False,
           res_stats = \<lparr> stats_lines = 1, stats_maxDepth = Num 6, stats_items = 1 \<rparr>,
           res_links = [] \<rparr>"
    by code_simp
  show ?thesis using a b c d by blast
qed

theorem hash_lines_witness:
  "startsWith (cleanedLine (js ''#news'')) (js ''#'') \<and>
   fingerprintLine plainConfig (cleanedLine (js ''#news'')) \<in>
     fingerprintSet (addLine plainConfig (js ''#news'') None initEmitter) \<and>
   lines (addLine plainConfig (js ''#news'') None initEmitter) = [js ''#news''] \<and>
   lines (addLine plainConfig (js ''#news'') None
            (addLine plainConfig (js ''#news'') None initEmitter)) =
     [js ''#news'', js ''#news'']"
proof -
  let ?cfg = plainConfig
  have h1: "\<not> truncated initEmitter \<and> \<not> (shellMode initEmitter \<and> shellRemaining initEmitter \<le> 0) \<and>
            \<not> (shellMode initEmitter \<and> shellRemaining initEmitter \<le> 1) \<and> lines initEmitter = []"
    by (simp add: initEmitter_def)
  have h2: "startsWith (cleanedLine (js ''#news'')) (js ''#'')"
    by code_simp
  have h3: "\<not> geqNum (ofNat (itemCount initEmitter)) (maxItems ?cfg) \<and>
            \<not> geqNum (ofNat (itemCount initEmitter + 1)) (maxItems ?cfg)"
    by (simp add: initEmitter_def plainConfig_def resolveConfig_def noOptions_def atLeastNum_def
        geqNum_ofNat)
  have h4: "shownLine ?cfg (js ''#news'') None = js ''#news''"
    by code_simp
  have h5: "fingerprintLine ?cfg (cleanedLine (js ''#news'')) \<in>
     fingerprintSet (addLine ?cfg (js ''#news'') None initEmitter)"
    by code_simp
  note t = hash_lines_bypass_dedup [where e = initEmitter and line = "js ''#news''" and cfg = ?cfg
      and linkRef = None]
  have a: "lines (addLine ?cfg (js ''#news'') None initEmitter) = [js ''#news'']"
    using t h1 h2 h3 h4 by simp
  have b: "lines (addLine ?cfg (js ''#news'') None (addLine ?cfg (js ''#news'') None initEmitter)) =
     [js ''#news'', js ''#news'']"
    using t h1 h2 h3 h4 by simp
  show ?thesis using h2 h5 a b by blast
qed


subsection \<open>Headings and the fingerprint window\<close>










subsection \<open>The filter group with a ``more'' button\<close>




subsection \<open>The fingerprint set and the window\<close>

text \<open>
  Claim C5 does not hold of \<^verbatim>\<open>addLine\<close>: the set that the duplicate check reads can lose a
  fingerprint that is still in the window. Line 253 deletes the evicted fingerprint from
  the set even when the window holds a second copy of it, and heading lines, which are
  never dropped, put such copies there. With a window of ten: after two headings
  \<^verbatim>\<open>## A\<close> and nine other lines, the first copy has been evicted and the set has lost the
  fingerprint, while the window still holds the second copy. The line \<^verbatim>\<open>\<cdot> ## A\<close>, which is
  not a heading and has this fingerprint, is then appended; appending it evicts the
  second copy and deletes the fingerprint from the set again, although it has just been
  inserted at the end of the window; so the same line is appended once more, right
  behind itself. The whole call on such a document shows the two lines.
\<close>

theorem duplicate_inside_window:
  "dedupeEnabled (resolveConfig lowerAscii windowOptions) \<and>
   dedupeWindow (resolveConfig lowerAscii windowOptions) = Num 10 \<and>
   \<not> startsWith (cleanedLine (middot # js '' ## A'')) (js ''#'') \<and>
   fingerprintLine (resolveConfig lowerAscii windowOptions) (cleanedLine (middot # js '' ## A'')) =
     js ''## a'' \<and>
   fingerprintWindow
     (addLines (resolveConfig lowerAscii windowOptions) ([js ''## A'', js ''## A''] @ shortLines) initEmitter) =
     js ''## a'' # shortLines \<and>
   js ''## a'' \<notin> fingerprintSet
     (addLines (resolveConfig lowerAscii windowOptions) ([js ''## A'', js ''## A''] @ shortLines) initEmitter) \<and>
   lines
     (addLines (resolveConfig lowerAscii windowOptions)
        ([js ''## A'', js ''## A''] @ shortLines @ [middot # js '' ## A'', middot # js '' ## A''])
        initEmitter) =
     [js ''## A'', js ''## A''] @ shortLines @ [middot # js '' ## A'', middot # js '' ## A''] \<and>
   resultLines (getReadableText (hostOf dupDoc) windowOptions) =
     [js ''## A'', js ''## A''] @ fillers @ [middot # js '' ## A'', middot # js '' ## A'']"
proof -
  let ?cfg = "resolveConfig lowerAscii windowOptions"
  let ?before = "addLines ?cfg ([js ''## A'', js ''## A''] @ shortLines) initEmitter"
  have a: "dedupeEnabled ?cfg" "dedupeWindow ?cfg = Num 10"
    by (simp_all add: resolveConfig_def windowOptions_def noOptions_def atLeastNum_def mathMax_def)
  have b: "\<not> startsWith (cleanedLine (middot # js '' ## A'')) (js ''#'')"
    by code_simp
  have c: "fingerprintLine ?cfg (cleanedLine (middot # js '' ## A'')) = js ''## a''"
    by code_simp
  have d: "fingerprintWindow ?before = js ''## a'' # shortLines \<and> js ''## a'' \<notin> fingerprintSet ?before"
    by code_simp
  have h: "lines
     (addLines ?cfg ([js ''## A'', js ''## A''] @ shortLines @ [middot # js '' ## A'', middot # js '' ## A''])
        initEmitter) =
     [js ''## A'', js ''## A''] @ shortLines @ [middot # js '' ## A'', middot # js '' ## A'']"
    by code_simp
  have i: "resultLines (getReadableText (hostOf dupDoc) windowOptions) =
     [js ''## A'', js ''## A''] @ fillers @ [middot # js '' ## A'', middot # js '' ## A'']"
    by code_simp
  show ?thesis using a b c d h i by blast
qed


end
